theory Spec2Isabelle
  imports Complex_Main "HOL-Library.Log_Nat"
begin

section \<open>Python floats (IEEE 754 binary64, round to nearest, ties to even)\<close>

text \<open>
  The dashboard computes with Python \<^verbatim>\<open>float\<close> values.  A float is modelled by the real
  number it denotes, or one of the two infinities, or not-a-number.  The two signed zeros
  are identified (they compare equal and no operation below tells them apart).
  Every arithmetic operation rounds its exact result with \<open>round_double\<close>.
\<close>

datatype pyfloat = Fin real | PInf | NInf | NaN

datatype pyerr = ZeroDivisionError | OverflowError | ValueError

definition round_half_even :: "real \<Rightarrow> int" where
  "round_half_even x =
     (let f = \<lfloor>x\<rfloor>; d = x - of_int f
      in if d < 1 / 2 then f
         else if 1 / 2 < d then f + 1
         else if even f then f else f + 1)"

definition ilog2 :: "real \<Rightarrow> int" where
  \<comment> \<open>the binary exponent of a positive real: \<open>2 powi ilog2 x \<le> x < 2 powi (ilog2 x + 1)\<close>\<close>
  "ilog2 x =
     (if 1 \<le> x then int (floorlog 2 (nat \<lfloor>x\<rfloor>)) - 1
      else - int (floorlog 2 (nat (\<lceil>1 / x\<rceil> - 1))))"

definition round_double :: "real \<Rightarrow> pyfloat" where
  \<comment> \<open>53 significant bits, least exponent \<open>-1074\<close> (subnormals), overflow to infinity\<close>
  "round_double x =
     (if x = 0 then Fin 0
      else
        let e = max (ilog2 \<bar>x\<bar> - 52) (- 1074);
            m = round_half_even (x / 2 powi e)
        in if 971 < e \<or> (e = 971 \<and> 2 ^ 53 \<le> \<bar>m\<bar>)
           then (if 0 < x then PInf else NInf)
           else Fin (of_int m * 2 powi e))"

definition is_double :: "real \<Rightarrow> bool" where
  "is_double x \<longleftrightarrow> round_double x = Fin x"

fun f_neg :: "pyfloat \<Rightarrow> pyfloat" where
  "f_neg (Fin x) = Fin (- x)"
| "f_neg PInf = NInf"
| "f_neg NInf = PInf"
| "f_neg NaN = NaN"

fun f_abs :: "pyfloat \<Rightarrow> pyfloat" where
  "f_abs (Fin x) = Fin \<bar>x\<bar>"
| "f_abs PInf = PInf"
| "f_abs NInf = PInf"
| "f_abs NaN = NaN"

fun f_add :: "pyfloat \<Rightarrow> pyfloat \<Rightarrow> pyfloat" where
  "f_add NaN y = NaN"
| "f_add x NaN = NaN"
| "f_add (Fin x) (Fin y) = round_double (x + y)"
| "f_add PInf NInf = NaN"
| "f_add NInf PInf = NaN"
| "f_add PInf y = PInf"
| "f_add NInf y = NInf"
| "f_add (Fin x) y = y"

definition f_sub :: "pyfloat \<Rightarrow> pyfloat \<Rightarrow> pyfloat" where
  "f_sub x y = f_add x (f_neg y)"

definition inf_of_sign :: "real \<Rightarrow> pyfloat" where
  "inf_of_sign s = (if s = 0 then NaN else if 0 < s then PInf else NInf)"

fun f_mul :: "pyfloat \<Rightarrow> pyfloat \<Rightarrow> pyfloat" where
  "f_mul NaN y = NaN"
| "f_mul x NaN = NaN"
| "f_mul (Fin x) (Fin y) = round_double (x * y)"
| "f_mul PInf PInf = PInf"
| "f_mul NInf NInf = PInf"
| "f_mul PInf NInf = NInf"
| "f_mul NInf PInf = NInf"
| "f_mul PInf (Fin y) = inf_of_sign y"
| "f_mul NInf (Fin y) = inf_of_sign (- y)"
| "f_mul (Fin x) PInf = inf_of_sign x"
| "f_mul (Fin x) NInf = inf_of_sign (- x)"

fun f_div :: "pyfloat \<Rightarrow> pyfloat \<Rightarrow> pyerr + pyfloat" where
  \<comment> \<open>Python raises on a zero divisor whatever the dividend is\<close>
  "f_div x (Fin y) =
     (if y = 0 then Inl ZeroDivisionError
      else case x of
             Fin a \<Rightarrow> Inr (round_double (a / y))
           | PInf \<Rightarrow> Inr (inf_of_sign y)
           | NInf \<Rightarrow> Inr (inf_of_sign (- y))
           | NaN \<Rightarrow> Inr NaN)"
| "f_div (Fin a) PInf = Inr (Fin 0)"
| "f_div (Fin a) NInf = Inr (Fin 0)"
| "f_div x y = Inr NaN"

fun f_lt :: "pyfloat \<Rightarrow> pyfloat \<Rightarrow> bool" where
  "f_lt NaN y = False"
| "f_lt x NaN = False"
| "f_lt (Fin x) (Fin y) = (x < y)"
| "f_lt x PInf = (x \<noteq> PInf)"
| "f_lt NInf y = (y \<noteq> NInf)"
| "f_lt x y = False"

fun f_le :: "pyfloat \<Rightarrow> pyfloat \<Rightarrow> bool" where
  "f_le NaN y = False"
| "f_le x NaN = False"
| "f_le (Fin x) (Fin y) = (x \<le> y)"
| "f_le x PInf = True"
| "f_le NInf y = True"
| "f_le x y = False"

definition int_to_float :: "int \<Rightarrow> pyerr + pyfloat" where
  \<comment> \<open>the conversion Python applies to an \<^verbatim>\<open>int\<close> operand of a float operation\<close>
  "int_to_float i =
     (case round_double (of_int i) of
        Fin x \<Rightarrow> Inr (Fin x)
      | _ \<Rightarrow> Inl OverflowError)"

definition bnd :: "'e + 'a \<Rightarrow> ('a \<Rightarrow> 'e + 'b) \<Rightarrow> 'e + 'b" where
  \<comment> \<open>sequencing: an exception raised by the first computation propagates\<close>
  "bnd m f = (case m of Inl e \<Rightarrow> Inl e | Inr a \<Rightarrow> f a)"

text \<open>Two ranges of floats used to follow the sign of a result through the operations.\<close>

definition nonpos :: "pyfloat \<Rightarrow> bool" where
  "nonpos f \<longleftrightarrow> f = NInf \<or> (\<exists>y. f = Fin y \<and> y \<le> 0)"

definition atleast :: "int \<Rightarrow> pyfloat \<Rightarrow> bool" where
  "atleast k f \<longleftrightarrow> f = PInf \<or> (\<exists>y. f = Fin y \<and> 2 powi k \<le> y)"

section \<open>Calibration engine (main.py, lines 50--72)\<close>

definition R_const :: pyfloat where
  "R_const = round_double (831446261815324 / 10 ^ 14)"

definition F_const :: pyfloat where
  "F_const = round_double (9648533212 / 10 ^ 5)"

definition LN10 :: pyfloat where
  \<comment> \<open>\<^verbatim>\<open>math.log(10.0)\<close>: the double \<^verbatim>\<open>0x1.26bb1bbb55516p+1\<close>, printed 2.302585092994046\<close>
  "LN10 = Fin (2592480341699211 / 2 ^ 50)"

definition nernst_slope_volt_per_pH :: "pyfloat \<Rightarrow> pyerr + pyfloat" where
  "nernst_slope_volt_per_pH temp_c =
     (let T = f_add temp_c (round_double (27315 / 100))
      in bnd (f_div (f_mul R_const T) F_const) (\<lambda>q. Inr (f_mul q LN10)))"

definition ph_two_point ::
  "pyfloat \<Rightarrow> pyfloat \<Rightarrow> pyfloat \<Rightarrow> pyfloat \<Rightarrow> pyfloat \<Rightarrow> pyerr + pyfloat" where
  "ph_two_point volts pH1 V1 pH2 V2 =
     (if f_lt (f_abs (f_sub V2 V1)) (round_double (1 / 10 ^ 12)) then Inr NaN
      else bnd (f_div (f_sub pH2 pH1) (f_sub V2 V1)) (\<lambda>a.
             let b = f_sub pH1 (f_mul a V1)
             in Inr (f_add (f_mul a volts) b)))"

definition ph_nernst :: "pyfloat \<Rightarrow> pyfloat \<Rightarrow> pyfloat \<Rightarrow> int \<Rightarrow> pyerr + pyfloat" where
  "ph_nernst volts E0 temp_c sign =
     bnd (nernst_slope_volt_per_pH temp_c) (\<lambda>S.
       if f_le S (Fin 0) then Inr NaN
       else bnd (int_to_float sign) (\<lambda>s.
              bnd (f_div (f_mul s (f_sub volts E0)) S) (\<lambda>q.
                Inr (f_add (Fin 7) q))))"


subsection \<open>The calibration record of the threaded variant (tests/test2.py, lines 25--42)\<close>

record CalibParams =
  cp_pH1 :: pyfloat
  cp_V1 :: pyfloat
  cp_pH2 :: pyfloat
  cp_V2 :: pyfloat
  cp_tempC :: pyfloat

definition a_gain :: "CalibParams \<Rightarrow> pyerr + pyfloat" where
  "a_gain c = f_div (f_sub (cp_pH2 c) (cp_pH1 c)) (f_sub (cp_V2 c) (cp_V1 c))"

definition b_off :: "CalibParams \<Rightarrow> pyerr + pyfloat" where
  "b_off c = bnd (a_gain c) (\<lambda>a. Inr (f_sub (cp_pH1 c) (f_mul a (cp_V1 c))))"

definition ph_from_voltage :: "CalibParams \<Rightarrow> pyfloat \<Rightarrow> pyerr + pyfloat" where
  "ph_from_voltage c v =
     bnd (a_gain c) (\<lambda>a. bnd (b_off c) (\<lambda>b. Inr (f_add (f_mul a v) b)))"

section \<open>Text lines and the two regular expressions (main.py, lines 74--87)\<close>

text \<open>
  A Python \<^verbatim>\<open>str\<close> is a list of code points.  The digit class and the whitespace class of a
  \<^verbatim>\<open>str\<close> pattern are Unicode aware; their ASCII part is fixed, the part beyond ASCII
  comes from the interpreter's Unicode database and is a parameter of the model.
\<close>

type_synonym pystr = "nat list"

record unicode_db =
  decimal_ext :: "nat \<Rightarrow> nat option"
  space_ext :: "nat \<Rightarrow> bool"

definition ascii_db :: unicode_db where
  "ascii_db = \<lparr>decimal_ext = (\<lambda>c. None), space_ext = (\<lambda>c. False)\<rparr>"

definition ustr :: "string \<Rightarrow> pystr" where
  "ustr s = map of_char s"

definition py_decimal :: "unicode_db \<Rightarrow> nat \<Rightarrow> nat option" where
  "py_decimal U c =
     (if c < 128 then (if 48 \<le> c \<and> c \<le> 57 then Some (c - 48) else None)
      else decimal_ext U c)"

definition is_digit :: "unicode_db \<Rightarrow> nat \<Rightarrow> bool" where
  "is_digit U c \<longleftrightarrow> py_decimal U c \<noteq> None"

definition py_isspace :: "unicode_db \<Rightarrow> nat \<Rightarrow> bool" where
  "py_isspace U c =
     (if c < 128 then (9 \<le> c \<and> c \<le> 13) \<or> (28 \<le> c \<and> c \<le> 32)
      else space_ext U c)"

text \<open>
  A matcher returns every way of matching at the start of the text, as pairs of the
  matched text and the rest, in the order in which the backtracking engine tries them
  (greedy repetition: longest first).
\<close>

type_synonym matcher = "pystr \<Rightarrow> (pystr \<times> pystr) list"

definition re_empty :: matcher where
  "re_empty s = [([], s)]"

definition re_class :: "(nat \<Rightarrow> bool) \<Rightarrow> matcher" where
  "re_class P s = (case s of [] \<Rightarrow> [] | c # r \<Rightarrow> if P c then [([c], r)] else [])"

fun re_star :: "(nat \<Rightarrow> bool) \<Rightarrow> matcher" where
  "re_star P [] = [([], [])]"
| "re_star P (c # r) =
     (if P c then map (\<lambda>(m, t). (c # m, t)) (re_star P r) @ [([], c # r)]
      else [([], c # r)])"

definition re_seq :: "matcher \<Rightarrow> matcher \<Rightarrow> matcher" where
  "re_seq a b s =
     concat (map (\<lambda>(m1, t1). map (\<lambda>(m2, t2). (m1 @ m2, t2)) (b t1)) (a s))"

definition re_opt :: "matcher \<Rightarrow> matcher" where
  "re_opt a s = a s @ [([], s)]"

definition re_plus :: "(nat \<Rightarrow> bool) \<Rightarrow> matcher" where
  "re_plus P = re_seq (re_class P) (re_star P)"

definition number_re :: "unicode_db \<Rightarrow> matcher" where
  \<comment> \<open>optional sign, one or more digits, optionally a point and one or more digits\<close>
  "number_re U =
     re_seq (re_opt (re_class (\<lambda>c. c = 43 \<or> c = 45)))
       (re_seq (re_plus (is_digit U))
          (re_opt (re_seq (re_class (\<lambda>c. c = 46)) (re_plus (is_digit U)))))"

definition tag_re :: "unicode_db \<Rightarrow> matcher" where
  \<comment> \<open>\<open>V\<close> or \<open>v\<close>, whitespace, a colon or an equals sign, whitespace\<close>
  "tag_re U =
     re_seq (re_class (\<lambda>c. c = 86 \<or> c = 118))
       (re_seq (re_star (py_isspace U))
          (re_seq (re_class (\<lambda>c. c = 58 \<or> c = 61)) (re_star (py_isspace U))))"

definition match_group :: "matcher \<Rightarrow> matcher \<Rightarrow> pystr \<Rightarrow> pystr list" where
  \<comment> \<open>the pattern \<open>pre(grp)\<close> tried at the start of the text: the texts of group 1\<close>
  "match_group pre grp s = concat (map (\<lambda>(m1, t1). map fst (grp t1)) (pre s))"

fun re_search :: "matcher \<Rightarrow> matcher \<Rightarrow> pystr \<Rightarrow> pystr option" where
  \<comment> \<open>\<^verbatim>\<open>re.search\<close>: the first match at the leftmost position that has one\<close>
  "re_search pre grp [] =
     (case match_group pre grp [] of [] \<Rightarrow> None | g # _ \<Rightarrow> Some g)"
| "re_search pre grp (c # r) =
     (case match_group pre grp (c # r) of [] \<Rightarrow> re_search pre grp r | g # _ \<Rightarrow> Some g)"

fun take_digits :: "unicode_db \<Rightarrow> pystr \<Rightarrow> nat list \<times> pystr" where
  "take_digits U [] = ([], [])"
| "take_digits U (c # r) =
     (case py_decimal U c of
        None \<Rightarrow> ([], c # r)
      | Some d \<Rightarrow> (let (ds, t) = take_digits U r in (d # ds, t)))"

definition digits_value :: "nat list \<Rightarrow> nat" where
  "digits_value ds = foldl (\<lambda>a d. 10 * a + d) 0 ds"

definition decimal_value :: "bool \<Rightarrow> nat list \<Rightarrow> nat list \<Rightarrow> real" where
  "decimal_value neg ip fp =
     (if neg then - 1 else 1) *
     (of_nat (digits_value ip) + of_nat (digits_value fp) / 10 ^ length fp)"

definition py_float :: "unicode_db \<Rightarrow> pystr \<Rightarrow> pyerr + pyfloat" where
  \<comment> \<open>\<^verbatim>\<open>float(text)\<close> on texts of the shape sign, digits, optional point and digits;
      any other text is a \<open>ValueError\<close> here (Python accepts some more, none of which
      the patterns above can produce)\<close>
  "py_float U s =
     (let (neg, s1) = (case s of
                         [] \<Rightarrow> (False, s)
                       | c # r \<Rightarrow> if c = 45 then (True, r)
                                 else if c = 43 then (False, r) else (False, s));
          (ip, s2) = take_digits U s1
      in if ip = [] then Inl ValueError
         else case s2 of
                [] \<Rightarrow> Inr (round_double (decimal_value neg ip []))
              | c # r \<Rightarrow>
                  if c = 46
                  then (let (fp, s3) = take_digits U r
                        in if fp \<noteq> [] \<and> s3 = []
                           then Inr (round_double (decimal_value neg ip fp))
                           else Inl ValueError)
                  else Inl ValueError)"

definition parse_voltage_from_line :: "unicode_db \<Rightarrow> pystr \<Rightarrow> pyerr + pyfloat option" where
  "parse_voltage_from_line U line =
     (case re_search (tag_re U) (number_re U) line of
        Some g \<Rightarrow> bnd (py_float U g) (\<lambda>v. Inr (Some v))
      | None \<Rightarrow>
          (case re_search re_empty (number_re U) line of
             Some g \<Rightarrow> bnd (py_float U g) (\<lambda>v. Inr (Some v))
           | None \<Rightarrow> Inr None))"


subsection \<open>The shape of the matched texts\<close>



section \<open>Session state and the sample buffers (main.py, lines 89--108, 187--245)\<close>

text \<open>A \<^verbatim>\<open>collections.deque\<close> with a \<^verbatim>\<open>maxlen\<close>: appending to a full deque drops the oldest item.\<close>

record 'a deque =
  maxlen :: nat
  items :: "'a list"

definition deque_new :: "nat \<Rightarrow> 'a deque" where
  "deque_new n = \<lparr>maxlen = n, items = []\<rparr>"

definition deque_append :: "'a deque \<Rightarrow> 'a \<Rightarrow> 'a deque" where
  "deque_append d x =
     (let ys = items d @ [x]
      in d\<lparr>items := (if maxlen d < length ys then tl ys else ys)\<rparr>)"

definition deque_clear :: "'a deque \<Rightarrow> 'a deque" where
  "deque_clear d = d\<lparr>items := []\<rparr>"

definition MAX_BUFFER :: nat where
  "MAX_BUFFER = 10000"

record session_state =
  t0 :: pyfloat
  buf_V :: "pyfloat deque"
  buf_pH_tp :: "pyfloat deque"
  buf_pH_nernst :: "pyfloat deque"
  buf_t :: "pyfloat deque"

definition new_session :: "nat \<Rightarrow> pyfloat \<Rightarrow> session_state" where
  \<comment> \<open>the state a fresh session builds; the dashboard uses capacity \<open>MAX_BUFFER\<close>\<close>
  "new_session cap now =
     \<lparr>t0 = now, buf_V = deque_new cap, buf_pH_tp = deque_new cap,
      buf_pH_nernst = deque_new cap, buf_t = deque_new cap\<rparr>"

text \<open>The sidebar widgets read on every run of the script.\<close>

record config =
  cfg_pH1 :: pyfloat
  cfg_V1 :: pyfloat
  cfg_pH2 :: pyfloat
  cfg_V2 :: pyfloat
  cfg_temp_c :: pyfloat
  cfg_E0 :: pyfloat

definition default_config :: config where
  \<comment> \<open>the values the widgets start with\<close>
  "default_config =
     \<lparr>cfg_pH1 = Fin 7, cfg_V1 = Fin (5 / 2), cfg_pH2 = Fin 4, cfg_V2 = Fin 3,
      cfg_temp_c = Fin 25, cfg_E0 = Fin (5 / 2)\<rparr>"

definition scenario_config :: "pyfloat \<Rightarrow> pyfloat \<Rightarrow> config" where
  \<comment> \<open>two-point parameters 7.00 at 2.500 V and 4.00 at 2.677 V; the Nernst parameters are free\<close>
  "scenario_config temp e0 =
     \<lparr>cfg_pH1 = Fin 7, cfg_V1 = Fin (5 / 2), cfg_pH2 = Fin 4,
      cfg_V2 = round_double (2677 / 1000), cfg_temp_c = temp, cfg_E0 = e0\<rparr>"

text \<open>
  What the acquisition source delivers in one run: the simulator's value, or a serial
  port that is not connected, whose read fails, or that yields a decoded line.
\<close>

datatype acquisition = Simulated pyfloat | SerialDown | SerialError | SerialLine pystr

definition py_strip :: "unicode_db \<Rightarrow> pystr \<Rightarrow> pystr" where
  "py_strip U s = rev (dropWhile (py_isspace U) (rev (dropWhile (py_isspace U) s)))"

definition acquire_voltage :: "unicode_db \<Rightarrow> acquisition \<Rightarrow> pyfloat option" where
  "acquire_voltage U a =
     (case a of
        Simulated v \<Rightarrow> Some v
      | SerialDown \<Rightarrow> None
      | SerialError \<Rightarrow> None
      | SerialLine raw \<Rightarrow>
          (let line = py_strip U raw
           in if line = [] then None
              else case parse_voltage_from_line U line of
                     Inr r \<Rightarrow> r
                   | Inl e \<Rightarrow> None))"

definition py_round3 :: "pyfloat \<Rightarrow> pyfloat" where
  \<comment> \<open>\<^verbatim>\<open>round(x, 3)\<close>\<close>
  "py_round3 x =
     (case x of
        Fin r \<Rightarrow> round_double (of_int (round_half_even (r * 1000)) / 1000)
      | _ \<Rightarrow> x)"

definition update_buffers ::
  "unicode_db \<Rightarrow> config \<Rightarrow> pyfloat \<Rightarrow> acquisition \<Rightarrow> session_state \<Rightarrow> pyerr + session_state" where
  \<comment> \<open>one sample per run of the script; \<open>now\<close> is the clock reading of this run\<close>
  "update_buffers U cfg now a st =
     (let v_opt = acquire_voltage U a;
          t_rel = py_round3 (f_sub now (t0 st))
      in case v_opt of
           None \<Rightarrow> Inr st
         | Some v \<Rightarrow>
             bnd (ph_two_point v (cfg_pH1 cfg) (cfg_V1 cfg) (cfg_pH2 cfg) (cfg_V2 cfg)) (\<lambda>ph_tp_val.
             bnd (ph_nernst v (cfg_E0 cfg) (cfg_temp_c cfg) (- 1)) (\<lambda>ph_nernst_val.
               Inr (st\<lparr>buf_V := deque_append (buf_V st) v,
                        buf_pH_tp := deque_append (buf_pH_tp st) ph_tp_val,
                        buf_pH_nernst := deque_append (buf_pH_nernst st) ph_nernst_val,
                        buf_t := deque_append (buf_t st) t_rel\<rparr>))))"

definition reset_buffers :: "pyfloat \<Rightarrow> session_state \<Rightarrow> session_state" where
  "reset_buffers now st =
     st\<lparr>buf_V := deque_clear (buf_V st),
        buf_pH_tp := deque_clear (buf_pH_tp st),
        buf_pH_nernst := deque_clear (buf_pH_nernst st),
        buf_t := deque_clear (buf_t st),
        t0 := now\<rparr>"

record sample =
  t_rel :: pyfloat
  V :: pyfloat
  pH_tp :: pyfloat
  pH_nernst :: pyfloat

definition data_frame :: "session_state \<Rightarrow> pyerr + sample list" where
  \<comment> \<open>\<^verbatim>\<open>pd.DataFrame\<close> of four columns: columns of different lengths are a \<open>ValueError\<close>\<close>
  "data_frame st =
     (let ts = items (buf_t st); vs = items (buf_V st);
          ps = items (buf_pH_tp st); ns = items (buf_pH_nernst st)
      in if length vs = length ts \<and> length ps = length ts \<and> length ns = length ts
         then Inr (map (\<lambda>(t, v, p, n). \<lparr>t_rel = t, V = v, pH_tp = p, pH_nernst = n\<rparr>)
                     (zip ts (zip vs (zip ps ns))))
         else Inl ValueError)"

definition df_tail :: "int \<Rightarrow> 'a list \<Rightarrow> 'a list" where
  \<comment> \<open>\<^verbatim>\<open>DataFrame.tail(n)\<close>: the slice \<^verbatim>\<open>[-n:]\<close>, and no rows for \<open>n = 0\<close>\<close>
  "df_tail n rows =
     (if n = 0 then []
      else if 0 < n then drop (length rows - nat n) rows
      else drop (nat (- n)) rows)"

definition data_frames ::
  "int \<Rightarrow> session_state \<Rightarrow> (pyerr + sample list \<times> sample list) \<times> session_state" where
  \<comment> \<open>the frames \<open>df\<close> and \<open>df_vis\<close> of one run, and the session state after building them\<close>
  "data_frames window st =
     (bnd (data_frame st) (\<lambda>df. Inr (df, df_tail window df)), st)"

datatype event = Run config pyfloat acquisition | ResetPressed pyfloat

fun script_run :: "unicode_db \<Rightarrow> event \<Rightarrow> session_state \<Rightarrow> pyerr + session_state" where
  "script_run U (Run cfg now a) st = update_buffers U cfg now a st"
| "script_run U (ResetPressed now) st = Inr (reset_buffers now st)"

fun script_runs :: "unicode_db \<Rightarrow> event list \<Rightarrow> session_state \<Rightarrow> pyerr + session_state" where
  "script_runs U [] st = Inr st"
| "script_runs U (ev # evs) st = bnd (script_run U ev st) (script_runs U evs)"


subsection \<open>The series of samples a sequence of runs should leave behind\<close>

text \<open>
  The reference against which the four buffers are compared: the samples acquired since
  the last reset, each built from one run, in arrival order.
\<close>

definition sample_of_run ::
  "unicode_db \<Rightarrow> config \<Rightarrow> pyfloat \<Rightarrow> acquisition \<Rightarrow> pyfloat \<Rightarrow> sample option" where
  "sample_of_run U cfg now a tz =
     (case acquire_voltage U a of
        None \<Rightarrow> None
      | Some v \<Rightarrow>
          (case ph_two_point v (cfg_pH1 cfg) (cfg_V1 cfg) (cfg_pH2 cfg) (cfg_V2 cfg) of
             Inl e \<Rightarrow> None
           | Inr tp \<Rightarrow>
               (case ph_nernst v (cfg_E0 cfg) (cfg_temp_c cfg) (- 1) of
                  Inl e \<Rightarrow> None
                | Inr ne \<Rightarrow>
                    Some \<lparr>t_rel = py_round3 (f_sub now tz), V = v,
                          pH_tp = tp, pH_nernst = ne\<rparr>)))"

fun log_step :: "unicode_db \<Rightarrow> pyfloat \<times> sample list \<Rightarrow> event \<Rightarrow> pyfloat \<times> sample list" where
  "log_step U (tz, hist) (Run cfg now a) =
     (tz, case sample_of_run U cfg now a tz of None \<Rightarrow> hist | Some s \<Rightarrow> hist @ [s])"
| "log_step U (tz, hist) (ResetPressed now) = (now, [])"

definition sample_log :: "unicode_db \<Rightarrow> event list \<Rightarrow> pyfloat \<Rightarrow> pyfloat \<times> sample list" where
  "sample_log U evs start = foldl (log_step U) (start, []) evs"

definition holds_last :: "nat \<Rightarrow> sample list \<Rightarrow> session_state \<Rightarrow> bool" where
  \<comment> \<open>the four buffers are the four columns of the last \<open>C\<close> samples of \<open>hist\<close>\<close>
  "holds_last C hist st \<longleftrightarrow>
     maxlen (buf_t st) = C \<and> maxlen (buf_V st) = C \<and>
     maxlen (buf_pH_tp st) = C \<and> maxlen (buf_pH_nernst st) = C \<and>
     items (buf_t st) = drop (length hist - C) (map t_rel hist) \<and>
     items (buf_V st) = drop (length hist - C) (map V hist) \<and>
     items (buf_pH_tp st) = drop (length hist - C) (map pH_tp hist) \<and>
     items (buf_pH_nernst st) = drop (length hist - C) (map pH_nernst hist)"


section \<open>The record buffer of the threaded variant (tests/test2.py, lines 134--164)\<close>

text \<open>
  The reader thread puts three kinds of items on the queue.  A \<^verbatim>\<open>DATA\<close> item carries the
  time stamp, the voltage and the two pH values the board computed.
\<close>

datatype queue_item = DATA pyfloat pyfloat pyfloat pyfloat | LOG pystr | ERROR pystr

record rec =
  rec_t :: pyfloat
  rec_V :: pyfloat
  rec_pH_arduino :: pyfloat
  rec_pH_nernst :: pyfloat
  rec_pH_local :: "pyfloat option"

record stream_state =
  ss_data :: "rec list"
  ss_q :: "queue_item list"
  ss_running :: bool
  ss_stop_event :: bool
  ss_calib :: CalibParams

definition default_calib :: CalibParams where
  \<comment> \<open>\<^verbatim>\<open>CalibParams()\<close>: the defaults of the dataclass\<close>
  "default_calib =
     \<lparr>cp_pH1 = Fin 7, cp_V1 = Fin (5 / 2), cp_pH2 = Fin 4,
      cp_V2 = round_double (2677 / 1000), cp_tempC = Fin 25\<rparr>"

definition MAX_POINTS :: nat where
  "MAX_POINTS = 4000"

text \<open>
  The \<^verbatim>\<open>while True\<close> loop of \<^verbatim>\<open>drain_queue_to_buffer\<close>: it takes the items off the queue one
  by one until the queue is empty or an error item is met, and appends one record per
  \<^verbatim>\<open>DATA\<close> item.  The first argument is the toggle \<^verbatim>\<open>use_local_cal\<close>.
\<close>

fun drain_loop :: "bool \<Rightarrow> queue_item list \<Rightarrow> stream_state \<Rightarrow> pyerr + stream_state" where
  "drain_loop use_local_cal [] s = Inr (s\<lparr>ss_q := []\<rparr>)"
| "drain_loop use_local_cal (DATA t v pH_cal pH_ne # rest) s =
     (if use_local_cal
      then bnd (ph_from_voltage (ss_calib s) v) (\<lambda>pl.
             drain_loop use_local_cal rest
               (s\<lparr>ss_q := rest,
                  ss_data := ss_data s @ [\<lparr>rec_t = t, rec_V = v, rec_pH_arduino = pH_cal,
                                           rec_pH_nernst = pH_ne, rec_pH_local = Some pl\<rparr>]\<rparr>))
      else drain_loop use_local_cal rest
             (s\<lparr>ss_q := rest,
                ss_data := ss_data s @ [\<lparr>rec_t = t, rec_V = v, rec_pH_arduino = pH_cal,
                                         rec_pH_nernst = pH_ne, rec_pH_local = None\<rparr>]\<rparr>))"
| "drain_loop use_local_cal (LOG l # rest) s = drain_loop use_local_cal rest (s\<lparr>ss_q := rest\<rparr>)"
| "drain_loop use_local_cal (ERROR e # rest) s =
     Inr (s\<lparr>ss_q := rest, ss_stop_event := True, ss_running := False\<rparr>)"

definition trim_buffer :: "stream_state \<Rightarrow> stream_state" where
  \<comment> \<open>lines 163--164: the slice \<^verbatim>\<open>data[-MAX_POINTS:]\<close> when the list is longer than \<open>MAX_POINTS\<close>\<close>
  "trim_buffer s =
     (if MAX_POINTS < length (ss_data s)
      then s\<lparr>ss_data := drop (length (ss_data s) - MAX_POINTS) (ss_data s)\<rparr>
      else s)"

definition drain_queue_to_buffer :: "bool \<Rightarrow> stream_state \<Rightarrow> pyerr + stream_state" where
  "drain_queue_to_buffer use_local_cal s =
     bnd (drain_loop use_local_cal (ss_q s) s) (\<lambda>s'. Inr (trim_buffer s'))"

text \<open>
  The reference for the record buffer: the records that the items of a queue stand for,
  in arrival order, up to the first error item.
\<close>

fun new_records :: "bool \<Rightarrow> CalibParams \<Rightarrow> queue_item list \<Rightarrow> rec list" where
  "new_records use_local_cal c [] = []"
| "new_records use_local_cal c (DATA t v pH_cal pH_ne # rest) =
     \<lparr>rec_t = t, rec_V = v, rec_pH_arduino = pH_cal, rec_pH_nernst = pH_ne,
      rec_pH_local = (if use_local_cal
                      then (case ph_from_voltage c v of Inr pl \<Rightarrow> Some pl | Inl e \<Rightarrow> None)
                      else None)\<rparr>
     # new_records use_local_cal c rest"
| "new_records use_local_cal c (LOG l # rest) = new_records use_local_cal c rest"
| "new_records use_local_cal c (ERROR e # rest) = []"

section \<open>Properties of rounding\<close>

lemma round_half_even_err: "\<bar>x - of_int (round_half_even x)\<bar> \<le> 1 / 2"
proof -
  define f where "f = \<lfloor>x\<rfloor>"
  have "of_int f \<le> x" "x < of_int f + 1" unfolding f_def by linarith+
  then show ?thesis unfolding round_half_even_def Let_def f_def[symmetric] by (auto simp: abs_if)
qed

lemma round_half_even_near: 
  assumes "\<bar>x - of_int m\<bar> < 1 / 2" shows "round_half_even x = m"
proof (cases "of_int m \<le> x")
  case True
  with assms have "\<lfloor>x\<rfloor> = m" by (intro floor_unique) (auto simp: abs_if)
  with assms True show ?thesis by (simp add: round_half_even_def Let_def abs_if)
next
  case False
  with assms have "\<lfloor>x\<rfloor> = m - 1" by (intro floor_unique) (auto simp: abs_if)
  with assms False show ?thesis by (simp add: round_half_even_def Let_def abs_if)
qed

lemma round_half_even_tie:
  assumes "\<bar>x - of_int m\<bar> = 1 / 2" "even m" shows "round_half_even x = m"
proof (cases "of_int m \<le> x")
  case True
  with assms have "\<lfloor>x\<rfloor> = m" by (intro floor_unique) (auto simp: abs_if)
  with assms True show ?thesis by (simp add: round_half_even_def Let_def abs_if)
next
  case False
  with assms have "\<lfloor>x\<rfloor> = m - 1" by (intro floor_unique) (auto simp: abs_if)
  with assms False show ?thesis by (simp add: round_half_even_def Let_def abs_if)
qed

lemma ilog2_bounds:
  assumes "0 < x"
  shows "2 powi ilog2 x \<le> x \<and> x < 2 powi (ilog2 x + 1)"
proof (cases "1 \<le> x")
  case True
  define n where "n = nat \<lfloor>x\<rfloor>"
  define l where "l = floorlog 2 n"
  have fl: "1 \<le> \<lfloor>x\<rfloor>" using True by linarith
  then have rn: "real n = of_int \<lfloor>x\<rfloor>" unfolding n_def by simp
  have n1: "0 < n" using fl by (simp add: n_def)
  have n2: "real n \<le> x" unfolding rn by linarith
  have n3: "x < real n + 1" unfolding rn by linarith
  from floorlog_bounds[of n 2] n1 have b: "2 ^ (l - 1) \<le> n" "n + 1 \<le> 2 ^ l"
    by (auto simp: l_def)
  have l: "0 < l" using b n1 by (cases l) auto
  have k: "ilog2 x = int l - 1" using True by (simp add: ilog2_def l_def n_def)
  have p1: "(2::real) powi (int l - 1) = 2 ^ (l - 1)"
  proof -
    have "int l - 1 = int (l - 1)" using l by simp
    then show ?thesis by (simp only: power_int_of_nat)
  qed
  have p2: "(2::real) powi (int l - 1 + 1) = 2 ^ l" by simp
  have "real (2 ^ (l - 1)) \<le> real n" using b(1) by (simp only: of_nat_le_iff)
  then have r1: "(2::real) ^ (l - 1) \<le> real n" by simp
  have "real (n + 1) \<le> real (2 ^ l)" using b(2) by (simp only: of_nat_le_iff)
  then have r2: "real n + 1 \<le> (2::real) ^ l" by simp
  show ?thesis unfolding k p1 p2
  proof (intro conjI)
    show "(2::real) ^ (l - 1) \<le> x" using r1 n2 by linarith
    show "x < (2::real) ^ l" using r2 n3 by linarith
  qed
next
  case False
  define z where "z = 1 / x"
  define n where "n = nat (\<lceil>z\<rceil> - 1)"
  define l where "l = floorlog 2 n"
  have z: "1 < z" using False assms by (simp add: z_def)
  then have cl: "2 \<le> \<lceil>z\<rceil>" by linarith
  then have rn: "real n = of_int \<lceil>z\<rceil> - 1" unfolding n_def by simp
  have n1: "0 < n" using cl by (simp add: n_def)
  have n2: "real n < z" unfolding rn by linarith
  have n3: "z \<le> real n + 1" unfolding rn by linarith
  from floorlog_bounds[of n 2] n1 have b: "2 ^ (l - 1) \<le> n" "n + 1 \<le> 2 ^ l"
    by (auto simp: l_def)
  have k: "ilog2 x = - int l" using False by (simp add: ilog2_def l_def n_def z_def)
  have "real (2 ^ (l - 1)) \<le> real n" using b(1) by (simp only: of_nat_le_iff)
  then have r1: "(2::real) ^ (l - 1) \<le> real n" by simp
  have "real (n + 1) \<le> real (2 ^ l)" using b(2) by (simp only: of_nat_le_iff)
  then have r2: "real n + 1 \<le> (2::real) ^ l" by simp
  have lo: "2 ^ (l - 1) < z" using r1 n2 by linarith
  have hi: "z \<le> 2 ^ l" using r2 n3 by linarith
  have l: "0 < l" using b n1 by (cases l) auto
  have x: "x = 1 / z" using assms by (simp add: z_def)
  have p1: "(2::real) powi (- int l) = 1 / 2 ^ l" by (simp add: power_int_minus_divide)
  have p2: "(2::real) powi (- int l + 1) = 1 / 2 ^ (l - 1)"
  proof -
    have "- int l + 1 = - int (l - 1)" using l by simp
    then show ?thesis by (simp only: power_int_minus_divide power_int_of_nat)
  qed
  have "1 / 2 ^ l \<le> 1 / z" using hi z by (intro divide_left_mono) auto
  then have a1: "1 / 2 ^ l \<le> x" by (simp only: x)
  have "1 / z < 1 / 2 ^ (l - 1)" using lo z by (intro divide_strict_left_mono) auto
  then have a2: "x < 1 / 2 ^ (l - 1)" by (simp only: x)
  show ?thesis unfolding k p1 p2 using a1 a2 by (intro conjI)
qed

lemma ilog2_unique:
  assumes "2 powi k \<le> x" "x < 2 powi (k + 1)"
  shows "ilog2 x = k"
proof -
  have pos: "0 < x" using assms(1) by (smt (verit) zero_less_power_int)
  from ilog2_bounds[OF pos] have b: "2 powi ilog2 x \<le> x" "x < 2 powi (ilog2 x + 1)" by auto
  have "\<not> ilog2 x < k"
  proof
    assume "ilog2 x < k"
    then have "(2::real) powi (ilog2 x + 1) \<le> 2 powi k" by (intro power_int_increasing) auto
    with assms b show False by linarith
  qed
  moreover have "\<not> k < ilog2 x"
  proof
    assume "k < ilog2 x"
    then have "(2::real) powi (k + 1) \<le> 2 powi ilog2 x" by (intro power_int_increasing) auto
    with assms b show False by linarith
  qed
  ultimately show ?thesis by linarith
qed


lemma scale_abs:
  fixes x p m :: real
  assumes "0 < p"
  shows "\<bar>x / p - m\<bar> * p = \<bar>x - m * p\<bar>"
proof -
  have "\<bar>x / p - m\<bar> * p = \<bar>x / p - m\<bar> * \<bar>p\<bar>" using assms by simp
  also have "\<dots> = \<bar>(x / p - m) * p\<bar>" by (simp only: abs_mult)
  also have "(x / p - m) * p = x - m * p" using assms by (simp add: field_simps)
  finally show ?thesis .
qed

lemma round_double_cert:
  assumes k: "2 powi k \<le> \<bar>x\<bar>" "\<bar>x\<bar> < 2 powi (k + 1)"
      and e: "e = max (k - 52) (- 1074)"
      and m: "2 * \<bar>x - of_int m * 2 powi e\<bar> < 2 powi e
              \<or> (2 * \<bar>x - of_int m * 2 powi e\<bar> = 2 powi e \<and> even m)"
      and nov: "e < 971 \<or> (e = 971 \<and> \<bar>m\<bar> < 2 ^ 53)"
  shows "round_double x = Fin (of_int m * 2 powi e)"
proof -
  have p: "(0::real) < 2 powi e" by simp
  have "(0::real) < 2 powi k" by simp
  with k(1) have "0 < \<bar>x\<bar>" by linarith
  then have x0: "x \<noteq> 0" by simp
  have il: "ilog2 \<bar>x\<bar> = k" using k by (rule ilog2_unique)
  define y where "y = x / 2 powi e"
  have d: "\<bar>y - of_int m\<bar> * 2 powi e = \<bar>x - of_int m * 2 powi e\<bar>"
    unfolding y_def using p by (rule scale_abs)
  have r: "round_half_even y = m"
  proof (rule disjE[OF m])
    assume "2 * \<bar>x - of_int m * 2 powi e\<bar> < 2 powi e"
    then have "(2 * \<bar>y - of_int m\<bar>) * 2 powi e < 1 * 2 powi e"
      by (simp only: mult.assoc d mult_1)
    then have "2 * \<bar>y - of_int m\<bar> < 1" using p by (simp only: mult_less_cancel_right_pos)
    then show ?thesis by (intro round_half_even_near) simp
  next
    assume a: "2 * \<bar>x - of_int m * 2 powi e\<bar> = 2 powi e \<and> even m"
    then have "(2 * \<bar>y - of_int m\<bar>) * 2 powi e = 1 * 2 powi e"
      by (simp only: mult.assoc d mult_1)
    then have "2 * \<bar>y - of_int m\<bar> = 1" using p by simp
    then show ?thesis using a by (intro round_half_even_tie) simp_all
  qed
  have nov': "\<not> (971 < e \<or> (e = 971 \<and> 2 ^ 53 \<le> \<bar>m\<bar>))" using nov by auto
  show ?thesis
    unfolding round_double_def Let_def il e[symmetric] y_def[symmetric] r
    using x0 nov' by simp
qed

lemma round_double_error:
  assumes "round_double x = Fin y"
  shows "\<bar>y - x\<bar> \<le> max (2 powi (- 53) * \<bar>x\<bar>) (2 powi (- 1075))"
proof (cases "x = 0")
  case True
  with assms show ?thesis by (simp add: round_double_def)
next
  case False
  define k where "k = ilog2 \<bar>x\<bar>"
  define e where "e = max (k - 52) (- 1074)"
  define m where "m = round_half_even (x / 2 powi e)"
  have p: "(0::real) < 2 powi e" by simp
  have y: "y = of_int m * 2 powi e"
    using assms False unfolding round_double_def Let_def k_def[symmetric] e_def[symmetric] m_def[symmetric]
    by (simp split: if_splits)
  have "\<bar>x / 2 powi e - of_int m\<bar> \<le> 1 / 2" unfolding m_def by (rule round_half_even_err)
  then have "\<bar>x / 2 powi e - of_int m\<bar> * 2 powi e \<le> 1 / 2 * 2 powi e"
    using p by (intro mult_right_mono) auto
  then have "\<bar>x - of_int m * 2 powi e\<bar> \<le> 1 / 2 * 2 powi e"
    by (simp only: scale_abs[OF p])
  then have err: "\<bar>y - x\<bar> \<le> 1 / 2 * 2 powi e" unfolding y by (simp only: abs_minus_commute)
  have half: "1 / 2 * (2::real) powi e = 2 powi (e - 1)" by (simp add: power_int_diff)
  from False have "0 < \<bar>x\<bar>" by simp
  from ilog2_bounds[OF this] have kb: "2 powi k \<le> \<bar>x\<bar>" by (simp add: k_def)
  show ?thesis
  proof (cases "- 1074 \<le> k - 52")
    case True
    then have "e - 1 = - 53 + k" by (simp add: e_def)
    then have "(2::real) powi (e - 1) = 2 powi (- 53 + k)" by (simp only:)
    also have "\<dots> = 2 powi (- 53) * 2 powi k" by (rule power_int_add) simp
    also have "\<dots> \<le> 2 powi (- 53) * \<bar>x\<bar>" using kb by (intro mult_left_mono) auto
    finally show ?thesis using err half by simp
  next
    case False
    then have "e = - 1074" by (simp add: e_def)
    then have "(2::real) powi (e - 1) = 2 powi (- 1075)" by simp
    then show ?thesis using err half by simp
  qed
qed

section \<open>The bounded deque; the calibration functions never raise\<close>

lemma deque_append_maxlen: "maxlen (deque_append d x) = maxlen d"
  by (simp add: deque_append_def Let_def)

lemma deque_append_last:
  assumes "items d = drop (length hist - maxlen d) hist"
  shows "items (deque_append d x) = drop (length (hist @ [x]) - maxlen d) (hist @ [x])"
proof -
  let ?n = "length hist" and ?c = "maxlen d"
  have ys: "items d @ [x] = drop (?n - ?c) (hist @ [x])" using assms by simp
  show ?thesis
  proof (cases "?c \<le> ?n")
    case True
    then have "?c < length (items d @ [x])" using assms by simp
    then have "items (deque_append d x) = tl (drop (?n - ?c) (hist @ [x]))"
      using ys by (simp add: deque_append_def Let_def)
    also have "\<dots> = drop (Suc (?n - ?c)) (hist @ [x])" by (simp only: drop_Suc tl_drop)
    also have "Suc (?n - ?c) = length (hist @ [x]) - ?c" using True by simp
    finally show ?thesis .
  next
    case False
    then have n: "?n < ?c" by simp
    then have "items d = hist" using assms by simp
    then have "items (deque_append d x) = hist @ [x]"
      using n by (simp add: deque_append_def Let_def)
    then show ?thesis using n by simp
  qed
qed

lemma foldl_deque_append:
  "items (foldl deque_append (deque_new C) xs) = drop (length xs - C) xs
   \<and> maxlen (foldl deque_append (deque_new C) xs) = C"
proof (induction xs rule: rev_induct)
  case Nil
  show ?case by (simp add: deque_new_def)
next
  case (snoc x xs)
  then show ?case using deque_append_last[of "foldl deque_append (deque_new C) xs" xs x]
    by (simp add: deque_append_maxlen)
qed

lemma eps_val: "round_double (1 / 10 ^ 12) = Fin (4951760157141521 / 4951760157141521099596496896)"
  using round_double_cert[of "- 40" "1 / 10 ^ 12" "- 92" "4951760157141521"] by simp

lemma R_val: "round_double (831446261815324 / 10 ^ 14) = Fin (2340313171806303 / 281474976710656)"
  using round_double_cert[of "3" "831446261815324 / 10 ^ 14" "- 49" "4680626343612606"] by simp

lemma F_val: "round_double (9648533212 / 10 ^ 5) = Fin (3315210767992787 / 34359738368)"
  using round_double_cert[of "16" "9648533212 / 10 ^ 5" "- 36" "6630421535985574"] by simp

lemma kelvin_val: "round_double (27315 / 100) = Fin (2402652809016115 / 8796093022208)"
  using round_double_cert[of "8" "27315 / 100" "- 44" "4805305618032230"] by simp

lemma minus_one_val: "round_double (- 1) = Fin (- 1)"
  using round_double_cert[of "0" "- 1" "- 52" "- 4503599627370496"] by simp

lemma one_val: "round_double (1) = Fin (1)"
  using round_double_cert[of "0" "1" "- 52" "4503599627370496"] by simp

lemma f_div_total: "d \<noteq> Fin 0 \<Longrightarrow> \<exists>q. f_div n d = Inr q"
  by (cases d; cases n) auto

lemma ph_two_point_guard_zero:
  "f_sub V2 V1 = Fin 0 \<Longrightarrow> f_lt (f_abs (f_sub V2 V1)) (round_double (1 / 10 ^ 12))"
  unfolding eps_val by simp

lemma ph_two_point_total: "\<exists>r. ph_two_point v pH1 V1 pH2 V2 = Inr r"
proof (cases "f_lt (f_abs (f_sub V2 V1)) (round_double (1 / 10 ^ 12))")
  case True
  then show ?thesis by (simp add: ph_two_point_def)
next
  case False
  then have "f_sub V2 V1 \<noteq> Fin 0" using ph_two_point_guard_zero by blast
  from f_div_total[OF this] obtain a where "f_div (f_sub pH2 pH1) (f_sub V2 V1) = Inr a" ..
  then show ?thesis using False by (simp add: ph_two_point_def bnd_def Let_def)
qed

lemma nernst_slope_total: "\<exists>S. nernst_slope_volt_per_pH temp_c = Inr S"
proof -
  have "F_const \<noteq> Fin 0" unfolding F_const_def F_val by simp
  from f_div_total[OF this]
  obtain q where "f_div (f_mul R_const (f_add temp_c (round_double (27315 / 100)))) F_const = Inr q" ..
  then show ?thesis by (simp add: nernst_slope_volt_per_pH_def bnd_def Let_def)
qed

lemma int_to_float_sign: "int_to_float (- 1) = Inr (Fin (- 1))" "int_to_float 1 = Inr (Fin 1)"
  using minus_one_val one_val by (simp_all add: int_to_float_def)

lemma f_le_zero: "\<not> f_le S (Fin 0) \<Longrightarrow> S \<noteq> Fin 0"
  by auto

lemma ph_nernst_total:
  assumes "sign = - 1 \<or> sign = 1"
  shows "\<exists>r. ph_nernst v E0 temp_c sign = Inr r"
proof -
  obtain S where S: "nernst_slope_volt_per_pH temp_c = Inr S" using nernst_slope_total by blast
  from assms obtain s where s: "int_to_float sign = Inr s" using int_to_float_sign by auto
  show ?thesis
  proof (cases "f_le S (Fin 0)")
    case True
    then show ?thesis using S by (simp add: ph_nernst_def bnd_def)
  next
    case False
    then have "S \<noteq> Fin 0" by (rule f_le_zero)
    from f_div_total[OF this] obtain q where "f_div (f_mul s (f_sub v E0)) S = Inr q" ..
    then show ?thesis using S s False by (simp add: ph_nernst_def bnd_def)
  qed
qed

section \<open>The buffers follow the sample series\<close>

lemma deque_append_last_map:
  assumes "maxlen d = C" "items d = drop (length hist - C) (map f hist)"
  shows "items (deque_append d (f s)) = drop (length (hist @ [s]) - C) (map f (hist @ [s]))"
    and "maxlen (deque_append d (f s)) = C"
  using deque_append_last[of d "map f hist" "f s"] assms
  by (simp_all add: deque_append_maxlen)

lemma update_buffers_step:
  "\<exists>st'. update_buffers U cfg now a st = Inr st' \<and>
     (case acquire_voltage U a of
        None \<Rightarrow> st' = st
      | Some v \<Rightarrow>
          (\<exists>tp ne. ph_two_point v (cfg_pH1 cfg) (cfg_V1 cfg) (cfg_pH2 cfg) (cfg_V2 cfg) = Inr tp
             \<and> ph_nernst v (cfg_E0 cfg) (cfg_temp_c cfg) (- 1) = Inr ne
             \<and> st' = st\<lparr>buf_V := deque_append (buf_V st) v,
                         buf_pH_tp := deque_append (buf_pH_tp st) tp,
                         buf_pH_nernst := deque_append (buf_pH_nernst st) ne,
                         buf_t := deque_append (buf_t st) (py_round3 (f_sub now (t0 st)))\<rparr>))"
proof (cases "acquire_voltage U a")
  case None
  then show ?thesis by (simp add: update_buffers_def)
next
  case (Some v)
  obtain tp where tp: "ph_two_point v (cfg_pH1 cfg) (cfg_V1 cfg) (cfg_pH2 cfg) (cfg_V2 cfg) = Inr tp"
    using ph_two_point_total by blast
  obtain ne where ne: "ph_nernst v (cfg_E0 cfg) (cfg_temp_c cfg) (- 1) = Inr ne"
    using ph_nernst_total[of "- 1"] by blast
  show ?thesis using Some tp ne by (simp add: update_buffers_def bnd_def Let_def)
qed

lemma holds_last_update:
  assumes "holds_last C hist st"
  shows "\<exists>st'. update_buffers U cfg now a st = Inr st' \<and> t0 st' = t0 st \<and>
           holds_last C (snd (log_step U (t0 st, hist) (Run cfg now a))) st'"
proof (cases "acquire_voltage U a")
  case None
  then show ?thesis using assms by (simp add: update_buffers_def sample_of_run_def)
next
  case (Some v)
  obtain tp where tp: "ph_two_point v (cfg_pH1 cfg) (cfg_V1 cfg) (cfg_pH2 cfg) (cfg_V2 cfg) = Inr tp"
    using ph_two_point_total by blast
  obtain ne where ne: "ph_nernst v (cfg_E0 cfg) (cfg_temp_c cfg) (- 1) = Inr ne"
    using ph_nernst_total[of "- 1"] by blast
  define s where "s = \<lparr>t_rel = py_round3 (f_sub now (t0 st)), V = v, pH_tp = tp, pH_nernst = ne\<rparr>"
  have sm: "sample_of_run U cfg now a (t0 st) = Some s"
    using Some tp ne by (simp add: sample_of_run_def s_def)
  define st' where "st' = st\<lparr>buf_V := deque_append (buf_V st) (V s),
                         buf_pH_tp := deque_append (buf_pH_tp st) (pH_tp s),
                         buf_pH_nernst := deque_append (buf_pH_nernst st) (pH_nernst s),
                         buf_t := deque_append (buf_t st) (t_rel s)\<rparr>"
  have up: "update_buffers U cfg now a st = Inr st'"
    using Some tp ne by (simp add: update_buffers_def bnd_def Let_def st'_def s_def)
  have "holds_last C (hist @ [s]) st'"
    using assms unfolding holds_last_def st'_def
    by (simp add: deque_append_last_map del: map_append)
  then show ?thesis using up sm by (simp add: st'_def)
qed

lemma holds_last_reset: 
  assumes "holds_last C hist st"
  shows "holds_last C [] (reset_buffers now st)" "t0 (reset_buffers now st) = now"
  using assms by (simp_all add: holds_last_def reset_buffers_def deque_clear_def)

lemma holds_last_new: "holds_last C [] (new_session C now)" "t0 (new_session C now) = now"
  by (simp_all add: holds_last_def new_session_def deque_new_def)

lemma holds_last_runs:
  assumes "holds_last C hist st"
  shows "\<exists>st'. script_runs U evs st = Inr st' \<and>
           t0 st' = fst (foldl (log_step U) (t0 st, hist) evs) \<and>
           holds_last C (snd (foldl (log_step U) (t0 st, hist) evs)) st'"
  using assms
proof (induction evs arbitrary: st hist)
  case Nil
  then show ?case by simp
next
  case (Cons ev evs)
  show ?case
  proof (cases ev)
    case (Run cfg now a)
    from holds_last_update[OF Cons.prems, of U cfg now a]
    obtain st1 where 1: "update_buffers U cfg now a st = Inr st1" "t0 st1 = t0 st"
      "holds_last C (snd (log_step U (t0 st, hist) (Run cfg now a))) st1" by blast
    have ls: "log_step U (t0 st, hist) (Run cfg now a) = (t0 st1, snd (log_step U (t0 st, hist) (Run cfg now a)))"
      using 1(2) by simp
    from Cons.IH[OF 1(3), unfolded ls[symmetric]] 1(1) Run show ?thesis
      by (simp add: bnd_def del: log_step.simps)
  next
    case (ResetPressed now)
    from holds_last_reset[OF Cons.prems, of now]
    have 1: "holds_last C [] (reset_buffers now st)" "t0 (reset_buffers now st) = now" by auto
    from Cons.IH[OF 1(1)] 1(2) ResetPressed show ?thesis by (simp add: bnd_def)
  qed
qed

lemma zip_columns:
  "map (\<lambda>(t, v, p, n). \<lparr>t_rel = t, V = v, pH_tp = p, pH_nernst = n\<rparr>)
     (zip (map t_rel xs) (zip (map V xs) (zip (map pH_tp xs) (map pH_nernst xs)))) = xs"
  by (induction xs) auto

lemma holds_last_data_frame:
  assumes "holds_last C hist st"
  shows "data_frame st = Inr (drop (length hist - C) hist)"
  using assms zip_columns[of "drop (length hist - C) hist"]
  by (simp add: holds_last_def data_frame_def Let_def drop_map)

section \<open>The record buffer of the threaded variant\<close>

lemma drain_loop_data:
  "drain_loop u qs s = Inr s' \<Longrightarrow> ss_data s' = ss_data s @ new_records u (ss_calib s) qs"
  by (induction u qs s rule: drain_loop.induct) (auto simp: bnd_def split: if_splits sum.splits)

lemma ph_from_voltage_total:
  assumes "f_sub (cp_V2 c) (cp_V1 c) \<noteq> Fin 0"
  shows "\<exists>p. ph_from_voltage c v = Inr p"
proof -
  from f_div_total[OF assms] obtain a where "a_gain c = Inr a" unfolding a_gain_def ..
  then show ?thesis by (simp add: ph_from_voltage_def b_off_def bnd_def)
qed

lemma drain_loop_total:
  assumes "\<not> u \<or> f_sub (cp_V2 (ss_calib s)) (cp_V1 (ss_calib s)) \<noteq> Fin 0"
  shows "\<exists>s'. drain_loop u qs s = Inr s'"
  using assms
proof (induction u qs s rule: drain_loop.induct)
  case (2 u t v pc pn rest s)
  show ?case
  proof (cases u)
    case True
    with 2(3) have nz: "f_sub (cp_V2 (ss_calib s)) (cp_V1 (ss_calib s)) \<noteq> Fin 0" by simp
    from ph_from_voltage_total[OF nz, of v] obtain p where p: "ph_from_voltage (ss_calib s) v = Inr p" ..
    from 2(1)[OF True, of p] nz True show ?thesis by (simp add: p bnd_def)
  next
    case False
    with 2(2) show ?thesis by simp
  qed
qed simp_all

lemma last_of_last:
  "drop (length (drop (length xs - C) xs @ ys) - C) (drop (length xs - C) xs @ ys)
   = drop (length (xs @ ys) - C) (xs @ ys)"
proof (cases "C \<le> length xs")
  case True
  define k where "k = length xs - C"
  have a: "length (drop k xs @ ys) - C = length ys" using True by (simp add: k_def)
  have b: "length (xs @ ys) - C = length ys + k" using True by (simp add: k_def)
  have c: "drop (length ys + k) (xs @ ys) = drop (length ys) (drop k (xs @ ys))"
    by (simp only: drop_drop)
  have d: "drop k (xs @ ys) = drop k xs @ ys" by (simp add: k_def)
  show ?thesis unfolding k_def[symmetric] by (simp only: a b c d)
next
  case False
  then show ?thesis by simp
qed

lemma drain_loop_replicate:
  "drain_loop False (replicate n (DATA t v pc pn)) s
   = Inr (s\<lparr>ss_q := [],
            ss_data := ss_data s @ replicate n \<lparr>rec_t = t, rec_V = v, rec_pH_arduino = pc,
                                                 rec_pH_nernst = pn, rec_pH_local = None\<rparr>\<rparr>)"
proof (induction n arbitrary: s)
  case 0
  show ?case by simp
next
  case (Suc n)
  show ?case by (simp add: Suc replicate_app_Cons_same)
qed

lemma trim_buffer_data:
  "ss_data (trim_buffer s) = drop (length (ss_data s) - MAX_POINTS) (ss_data s)"
  "length (ss_data (trim_buffer s)) \<le> MAX_POINTS"
  by (simp_all add: trim_buffer_def)

lemma drain_queue_to_buffer_split:
  assumes "drain_queue_to_buffer u s = Inr s'"
  shows "\<exists>s1. drain_loop u (ss_q s) s = Inr s1 \<and> s' = trim_buffer s1"
  using assms by (cases "drain_loop u (ss_q s) s") (auto simp: drain_queue_to_buffer_def bnd_def)

lemma new_records_replicate:
  "new_records False c (replicate n (DATA t v pc pn))
   = replicate n \<lparr>rec_t = t, rec_V = v, rec_pH_arduino = pc, rec_pH_nernst = pn,
                    rec_pH_local = None\<rparr>"
  by (induction n) simp_all

section \<open>Evaluating the model on the dashboard's values\<close>

lemma round_double_zero [simp]: "round_double 0 = Fin 0"
  by (simp add: round_double_def)

lemma round_half_even_int [simp]: "round_half_even (of_int n) = n"
  by (rule round_half_even_near) simp

lemma rd_2677: "round_double (2677 / 1000) = Fin (6028068101235409 / 2251799813685248)"
  using round_double_cert[of "1" "2677 / 1000" "- 51" "6028068101235409"] by simp

lemma rd_2500: "round_double (5 / 2) = Fin (5 / 2)"
  using round_double_cert[of "1" "5 / 2" "- 51" "5629499534213120"] by simp

lemma rd_ex1_d: "round_double (398568567022289 / 2251799813685248) = Fin (398568567022289 / 2251799813685248)"
  using round_double_cert[of "- 3" "398568567022289 / 2251799813685248" "- 55" "6377097072356624"] by simp

lemma rd_ex1_n: "round_double (- 3) = Fin (- 3)"
  using round_double_cert[of "1" "- 3" "- 51" "- 6755399441055744"] by simp

lemma rd_ex1_a: "round_double (- (6755399441055744 / 398568567022289)) = Fin (- (4770762317129761 / 281474976710656))"
  using round_double_cert[of "4" "- (6755399441055744 / 398568567022289)" "- 48" "- 4770762317129761"] by simp

lemma rd_ex1_x: "round_double (- (23853811585648805 / 562949953421312)) = Fin (- (5963452896412201 / 140737488355328))"
  using round_double_cert[of "5" "- (23853811585648805 / 562949953421312)" "- 47" "- 5963452896412201"] by simp

lemma rd_ex1_b: "round_double (6948615314899497 / 140737488355328) = Fin (6948615314899497 / 140737488355328)"
  using round_double_cert[of "5" "6948615314899497 / 140737488355328" "- 47" "6948615314899497"] by simp

lemma rd_ex1_r: "round_double (7) = Fin (7)"
  using round_double_cert[of "2" "7" "- 50" "7881299347898368"] by simp

lemma rd_ex2_y: "round_double (- (28758480142465838548167060907249 / 633825300114114700748351602688)) = Fin (- (6385665361478185 / 140737488355328))"
  using round_double_cert[of "5" "- (28758480142465838548167060907249 / 633825300114114700748351602688)" "- 47" "- 6385665361478185"] by simp

lemma rd_ex2_r: "round_double (4) = Fin (4)"
  using round_double_cert[of "2" "4" "- 50" "4503599627370496"] by simp

lemma rd_dflt_d: "round_double (1 / 2) = Fin (1 / 2)"
  using round_double_cert[of "- 1" "1 / 2" "- 53" "4503599627370496"] by simp

lemma rd_dflt_a: "round_double (- 6) = Fin (- 6)"
  using round_double_cert[of "2" "- 6" "- 50" "- 6755399441055744"] by simp

lemma rd_dflt_x: "round_double (- 15) = Fin (- 15)"
  using round_double_cert[of "3" "- 15" "- 49" "- 8444249301319680"] by simp

lemma rd_dflt_b: "round_double (22) = Fin (22)"
  using round_double_cert[of "4" "22" "- 48" "6192449487634432"] by simp

lemma rd_T25: "round_double (2622555134571315 / 8796093022208) = Fin (2622555134571315 / 8796093022208)"
  using round_double_cert[of "8" "2622555134571315 / 8796093022208" "- 44" "5245110269142630"] by simp

lemma rd_RT25: "round_double (6137600325225500005960119998445 / 2475880078570760549798248448) = Fin (5451284157609759 / 2199023255552)"
  using round_double_cert[of "11" "6137600325225500005960119998445 / 2475880078570760549798248448" "- 41" "5451284157609759"] by simp

lemma rd_RTF25: "round_double (5451284157609759 / 212173489151538368) = Fin (1851345436158059 / 72057594037927936)"
  using round_double_cert[of "- 6" "5451284157609759 / 212173489151538368" "- 58" "7405381744632236"] by simp

lemma rd_S25: "round_double (4799576648934319619979631591449 / 81129638414606681695789005144064) = Fin (4262880403280107 / 72057594037927936)"
  using round_double_cert[of "- 5" "4799576648934319619979631591449 / 81129638414606681695789005144064" "- 57" "8525760806560214"] by simp

lemmas rd_certs = rd_2677 rd_2500 rd_ex1_d rd_ex1_n rd_ex1_a rd_ex1_x rd_ex1_b rd_ex1_r rd_ex2_y rd_ex2_r rd_dflt_d rd_dflt_a rd_dflt_x rd_dflt_b rd_T25 rd_RT25 rd_RTF25 rd_S25

lemma two_point_ex1:
  "ph_two_point (Fin (5 / 2)) (Fin 7) (Fin (5 / 2)) (Fin 4) (round_double (2677 / 1000)) = Inr (Fin 7)"
  unfolding ph_two_point_def eps_val rd_2677
  by (simp add: f_sub_def bnd_def rd_certs)

lemma two_point_ex2:
  "ph_two_point (round_double (2677 / 1000)) (Fin 7) (Fin (5 / 2)) (Fin 4) (round_double (2677 / 1000)) = Inr (Fin 4)"
  unfolding ph_two_point_def eps_val rd_2677
  by (simp add: f_sub_def bnd_def rd_certs)

lemma two_point_default:
  "ph_two_point (Fin (5 / 2)) (Fin 7) (Fin (5 / 2)) (Fin 4) (Fin 3) = Inr (Fin 7)"
  unfolding ph_two_point_def eps_val
  by (simp add: f_sub_def bnd_def rd_certs)

lemma LN10_val: "LN10 = Fin (2592480341699211 / 1125899906842624)"
  by (simp add: LN10_def)

lemma nernst_slope_25:
  "nernst_slope_volt_per_pH (Fin 25) = Inr (Fin (4262880403280107 / 72057594037927936))"
  unfolding nernst_slope_volt_per_pH_def R_const_def F_const_def R_val F_val kelvin_val LN10_val
  by (simp add: bnd_def rd_certs)

lemma nernst_default:
  "ph_nernst (Fin (5 / 2)) (Fin (5 / 2)) (Fin 25) (- 1) = Inr (Fin 7)"
  unfolding ph_nernst_def nernst_slope_25
  by (simp add: bnd_def int_to_float_sign f_sub_def rd_certs)

lemmas re_defs = parse_voltage_from_line_def number_re_def tag_re_def re_seq_def re_opt_def re_plus_def
  re_class_def re_empty_def match_group_def py_float_def ustr_def is_digit_def py_decimal_def py_isspace_def
  digits_value_def decimal_value_def bnd_def

lemma acquire_line_2500: "acquire_voltage U (SerialLine (ustr ''V=2.500'')) = Some (Fin (5 / 2))"
  by (simp add: acquire_voltage_def py_strip_def re_defs rd_2500)

lemma acquire_line_garbage: "acquire_voltage U (SerialLine (ustr ''garbage'')) = None"
  by (simp add: acquire_voltage_def py_strip_def re_defs)

lemma acquire_line_2677:
  "acquire_voltage U (SerialLine (ustr ''V=2.677'')) = Some (round_double (2677 / 1000))"
  by (simp add: acquire_voltage_def py_strip_def re_defs)

lemma py_round3_one: "py_round3 (f_sub (Fin 1) (Fin 0)) = Fin 1"
proof -
  have "round_half_even 1000 = 1000" using round_half_even_int[of 1000] by simp
  then show ?thesis by (simp add: py_round3_def f_sub_def one_val)
qed

lemma rd_n2_m: "round_double (- (398568567022289 / 2251799813685248)) = Fin (- (398568567022289 / 2251799813685248))"
  using round_double_cert[of "- 3" "- (398568567022289 / 2251799813685248)" "- 55" "- 6377097072356624"] by simp

lemma rd_n2_q: "round_double (- (12754194144713248 / 4262880403280107)) = Fin (- (6737203318364743 / 2251799813685248))"
  using round_double_cert[of "1" "- (12754194144713248 / 4262880403280107)" "- 51" "- 6737203318364743"] by simp

lemma rd_n2_r: "round_double (9025395377431993 / 2251799813685248) = Fin (1128174422178999 / 281474976710656)"
  using round_double_cert[of "2" "9025395377431993 / 2251799813685248" "- 50" "4512697688715996"] by simp

lemma rd_three: "round_double (3) = Fin (3)"
  using round_double_cert[of "1" "3" "- 51" "6755399441055744"] by simp

lemma nernst_2677:
  "ph_nernst (round_double (2677 / 1000)) (Fin (5 / 2)) (Fin 25) (- 1)
   = Inr (Fin (1128174422178999 / 281474976710656))"
  unfolding ph_nernst_def nernst_slope_25 rd_2677
  by (simp add: bnd_def int_to_float_sign f_sub_def rd_certs rd_n2_m rd_n2_q rd_n2_r)

lemma py_round3_three: "py_round3 (f_sub (Fin 3) (Fin 0)) = Fin 3"
proof -
  have "round_half_even 3000 = 3000" using round_half_even_int[of 3000] by simp
  then show ?thesis by (simp add: py_round3_def f_sub_def rd_three)
qed

lemma from_voltage_default:
  "ph_from_voltage default_calib (Fin (5 / 2)) = Inr (Fin 7)"
  "ph_from_voltage default_calib (round_double (2677 / 1000)) = Inr (Fin 4)"
  unfolding ph_from_voltage_def a_gain_def b_off_def default_calib_def rd_2677
  by (simp_all add: f_sub_def bnd_def rd_certs)

section \<open>The sample buffer\<close>

lemma demo_drain:
  "drain_queue_to_buffer True
     \<lparr>ss_data = replicate 4000 \<lparr>rec_t = Fin 0, rec_V = Fin 3, rec_pH_arduino = Fin 1, rec_pH_nernst = Fin 1,
           rec_pH_local = None\<rparr>,
        ss_q = [DATA (Fin 1) (Fin (5 / 2)) (Fin 7) (Fin 7), LOG (ustr ''boot''),
                DATA (Fin 2) (round_double (2677 / 1000)) (Fin 4) (Fin 4), ERROR (ustr ''lost''),
                DATA (Fin 3) (Fin 3) (Fin 1) (Fin 1)],
        ss_running = True, ss_stop_event = False, ss_calib = default_calib\<rparr>
   = Inr \<lparr>ss_data = replicate 3998 \<lparr>rec_t = Fin 0, rec_V = Fin 3, rec_pH_arduino = Fin 1, rec_pH_nernst = Fin 1,
           rec_pH_local = None\<rparr> @ [\<lparr>rec_t = Fin 1, rec_V = Fin (5 / 2), rec_pH_arduino = Fin 7, rec_pH_nernst = Fin 7,
           rec_pH_local = Some (Fin 7)\<rparr>, \<lparr>rec_t = Fin 2, rec_V = round_double (2677 / 1000), rec_pH_arduino = Fin 4,
           rec_pH_nernst = Fin 4, rec_pH_local = Some (Fin 4)\<rparr>],
        ss_q = [DATA (Fin 3) (Fin 3) (Fin 1) (Fin 1)],
        ss_running = False, ss_stop_event = True, ss_calib = default_calib\<rparr>"
  by (simp add: drain_queue_to_buffer_def from_voltage_default bnd_def trim_buffer_def
      MAX_POINTS_def)

lemma demo_drain_overflow:
  "drain_loop False (replicate 4001 (DATA (Fin 1) (Fin (5 / 2)) (Fin 7) (Fin 7)))
     \<lparr>ss_data = [], ss_q = replicate 4001 (DATA (Fin 1) (Fin (5 / 2)) (Fin 7) (Fin 7)),
        ss_running = True, ss_stop_event = False, ss_calib = default_calib\<rparr>
   = Inr \<lparr>ss_data = replicate 4001 \<lparr>rec_t = Fin 1, rec_V = Fin (5 / 2), rec_pH_arduino = Fin 7, rec_pH_nernst = Fin 7,
           rec_pH_local = None\<rparr>,
        ss_q = [], ss_running = True, ss_stop_event = False, ss_calib = default_calib\<rparr>"
  "drain_queue_to_buffer False
     \<lparr>ss_data = [], ss_q = replicate 4001 (DATA (Fin 1) (Fin (5 / 2)) (Fin 7) (Fin 7)),
        ss_running = True, ss_stop_event = False, ss_calib = default_calib\<rparr>
   = Inr \<lparr>ss_data = replicate 4000 \<lparr>rec_t = Fin 1, rec_V = Fin (5 / 2), rec_pH_arduino = Fin 7, rec_pH_nernst = Fin 7,
           rec_pH_local = None\<rparr>,
        ss_q = [], ss_running = True, ss_stop_event = False, ss_calib = default_calib\<rparr>"
  by (simp_all add: drain_loop_replicate drain_queue_to_buffer_def bnd_def trim_buffer_def
      MAX_POINTS_def)

text \<open>
  C4, as stated, holds for the deques of the main dashboard and fails for the list that
  the threaded variant trims by hand.  There \<^verbatim>\<open>drain_queue_to_buffer\<close> appends one record for
  every queued \<^verbatim>\<open>DATA\<close> item and trims the list once, after the loop: with 4001 items queued
  for an empty buffer, the list holds 4001 records when the loop ends, more than
  \<open>MAX_POINTS\<close>, and 4000 once the call returns.
\<close>

theorem buffer_capacity_counterexample:
  "drain_loop False (replicate 4001 (DATA (Fin 1) (Fin (5 / 2)) (Fin 7) (Fin 7)))
     \<lparr>ss_data = [], ss_q = replicate 4001 (DATA (Fin 1) (Fin (5 / 2)) (Fin 7) (Fin 7)),
        ss_running = True, ss_stop_event = False, ss_calib = default_calib\<rparr>
   = Inr \<lparr>ss_data = replicate 4001 \<lparr>rec_t = Fin 1, rec_V = Fin (5 / 2), rec_pH_arduino = Fin 7, rec_pH_nernst = Fin 7,
           rec_pH_local = None\<rparr>,
        ss_q = [], ss_running = True, ss_stop_event = False, ss_calib = default_calib\<rparr>
   \<and> MAX_POINTS < length (replicate 4001 \<lparr>rec_t = Fin 1, rec_V = Fin (5 / 2), rec_pH_arduino = Fin 7, rec_pH_nernst = Fin 7,
           rec_pH_local = None\<rparr>)
   \<and> drain_queue_to_buffer False
     \<lparr>ss_data = [], ss_q = replicate 4001 (DATA (Fin 1) (Fin (5 / 2)) (Fin 7) (Fin 7)),
        ss_running = True, ss_stop_event = False, ss_calib = default_calib\<rparr>
   = Inr \<lparr>ss_data = replicate 4000 \<lparr>rec_t = Fin 1, rec_V = Fin (5 / 2), rec_pH_arduino = Fin 7, rec_pH_nernst = Fin 7,
           rec_pH_local = None\<rparr>,
        ss_q = [], ss_running = True, ss_stop_event = False, ss_calib = default_calib\<rparr>"
  by (simp add: demo_drain_overflow MAX_POINTS_def)

text \<open>
  C4, amended.  Appending \<open>C + k\<close> samples to an empty deque of capacity \<open>C\<close> leaves the
  last \<open>C\<close> of them, in their order, and after every one of the appends the deque holds
  at most \<open>C\<close> samples.  A call of \<^verbatim>\<open>drain_queue_to_buffer\<close> that returns has appended, in
  arrival order, the records of the queued \<^verbatim>\<open>DATA\<close> items up to the first error item, and
  then trimmed the list: on return the list holds at most \<open>MAX_POINTS\<close> records; if it
  held the last \<open>MAX_POINTS\<close> records of a series before the call, it holds the last
  \<open>MAX_POINTS\<close> records of the extended series after it; and from an empty list,
  \<open>MAX_POINTS + j\<close> new records leave the last \<open>MAX_POINTS\<close> of them.  The bound holds on
  return, not between the appends and the trim.  The call returns whenever the pH is not
  recomputed locally or the calibration voltages differ.
\<close>

theorem buffer_fifo_capacity:
  "(length xs = C + k \<longrightarrow>
      items (foldl deque_append (deque_new C) xs) = drop k xs
      \<and> length (items (foldl deque_append (deque_new C) xs)) = C)
   \<and> (\<forall>n \<le> length xs. length (items (foldl deque_append (deque_new C) (take n xs))) \<le> C)
   \<and> (drain_queue_to_buffer u s = Inr s' \<longrightarrow>
        (\<exists>s1. drain_loop u (ss_q s) s = Inr s1
           \<and> ss_data s1 = ss_data s @ new_records u (ss_calib s) (ss_q s)
           \<and> s' = trim_buffer s1)
        \<and> length (ss_data s') \<le> MAX_POINTS
        \<and> (ss_data s = drop (length hist - MAX_POINTS) hist \<longrightarrow>
             ss_data s' = drop (length (hist @ new_records u (ss_calib s) (ss_q s)) - MAX_POINTS)
                            (hist @ new_records u (ss_calib s) (ss_q s)))
        \<and> (ss_data s = [] \<and> length (new_records u (ss_calib s) (ss_q s)) = MAX_POINTS + j \<longrightarrow>
             ss_data s' = drop j (new_records u (ss_calib s) (ss_q s))
             \<and> length (ss_data s') = MAX_POINTS))
   \<and> (\<not> u \<or> f_sub (cp_V2 (ss_calib s)) (cp_V1 (ss_calib s)) \<noteq> Fin 0 \<longrightarrow>
        (\<exists>s2. drain_queue_to_buffer u s = Inr s2))"
proof -
  have A: "length xs = C + k \<longrightarrow>
      items (foldl deque_append (deque_new C) xs) = drop k xs
      \<and> length (items (foldl deque_append (deque_new C) xs)) = C"
    by (simp add: foldl_deque_append)
  have B: "\<forall>n \<le> length xs. length (items (foldl deque_append (deque_new C) (take n xs))) \<le> C"
    by (auto simp: foldl_deque_append)
  have D: "drain_queue_to_buffer u s = Inr s' \<longrightarrow>
        (\<exists>s1. drain_loop u (ss_q s) s = Inr s1
           \<and> ss_data s1 = ss_data s @ new_records u (ss_calib s) (ss_q s)
           \<and> s' = trim_buffer s1)
        \<and> length (ss_data s') \<le> MAX_POINTS
        \<and> (ss_data s = drop (length hist - MAX_POINTS) hist \<longrightarrow>
             ss_data s' = drop (length (hist @ new_records u (ss_calib s) (ss_q s)) - MAX_POINTS)
                            (hist @ new_records u (ss_calib s) (ss_q s)))
        \<and> (ss_data s = [] \<and> length (new_records u (ss_calib s) (ss_q s)) = MAX_POINTS + j \<longrightarrow>
             ss_data s' = drop j (new_records u (ss_calib s) (ss_q s))
             \<and> length (ss_data s') = MAX_POINTS)"
  proof
    assume a: "drain_queue_to_buffer u s = Inr s'"
    from drain_queue_to_buffer_split[OF a] obtain s1 where
      l: "drain_loop u (ss_q s) s = Inr s1" and t: "s' = trim_buffer s1" by blast
    note d = drain_loop_data[OF l]
    have r: "ss_data s' = drop (length (ss_data s1) - MAX_POINTS) (ss_data s1)"
      unfolding t by (rule trim_buffer_data(1))
    from l d t have X: "\<exists>s1. drain_loop u (ss_q s) s = Inr s1
           \<and> ss_data s1 = ss_data s @ new_records u (ss_calib s) (ss_q s)
           \<and> s' = trim_buffer s1" by blast
    have Y: "length (ss_data s') \<le> MAX_POINTS" unfolding t by (rule trim_buffer_data(2))
    have Z: "ss_data s = drop (length hist - MAX_POINTS) hist \<longrightarrow>
             ss_data s' = drop (length (hist @ new_records u (ss_calib s) (ss_q s)) - MAX_POINTS)
                            (hist @ new_records u (ss_calib s) (ss_q s))"
    proof
      assume h: "ss_data s = drop (length hist - MAX_POINTS) hist"
      from r show "ss_data s' = drop (length (hist @ new_records u (ss_calib s) (ss_q s)) - MAX_POINTS)
                            (hist @ new_records u (ss_calib s) (ss_q s))"
        unfolding d h by (simp only: last_of_last)
    qed
    have W: "ss_data s = [] \<and> length (new_records u (ss_calib s) (ss_q s)) = MAX_POINTS + j \<longrightarrow>
             ss_data s' = drop j (new_records u (ss_calib s) (ss_q s))
             \<and> length (ss_data s') = MAX_POINTS"
      using r unfolding d by simp
    from X Y Z W show "(\<exists>s1. drain_loop u (ss_q s) s = Inr s1
           \<and> ss_data s1 = ss_data s @ new_records u (ss_calib s) (ss_q s)
           \<and> s' = trim_buffer s1)
        \<and> length (ss_data s') \<le> MAX_POINTS
        \<and> (ss_data s = drop (length hist - MAX_POINTS) hist \<longrightarrow>
             ss_data s' = drop (length (hist @ new_records u (ss_calib s) (ss_q s)) - MAX_POINTS)
                            (hist @ new_records u (ss_calib s) (ss_q s)))
        \<and> (ss_data s = [] \<and> length (new_records u (ss_calib s) (ss_q s)) = MAX_POINTS + j \<longrightarrow>
             ss_data s' = drop j (new_records u (ss_calib s) (ss_q s))
             \<and> length (ss_data s') = MAX_POINTS)"
      by (intro conjI) assumption+
  qed
  have E: "\<not> u \<or> f_sub (cp_V2 (ss_calib s)) (cp_V1 (ss_calib s)) \<noteq> Fin 0 \<longrightarrow>
        (\<exists>s2. drain_queue_to_buffer u s = Inr s2)"
  proof
    assume "\<not> u \<or> f_sub (cp_V2 (ss_calib s)) (cp_V1 (ss_calib s)) \<noteq> Fin 0"
    from drain_loop_total[OF this, of "ss_q s"] obtain s1 where "drain_loop u (ss_q s) s = Inr s1" ..
    then show "\<exists>s2. drain_queue_to_buffer u s = Inr s2"
      by (simp add: drain_queue_to_buffer_def bnd_def)
  qed
  from A B D E show ?thesis by (intro conjI) assumption+
qed

theorem buffer_fifo_capacity_witness:
  "items (foldl deque_append (deque_new 2) [1, 2, 3, 4, 5 :: nat]) = [4, 5]
   \<and> length (items (foldl deque_append (deque_new 2) [1, 2, 3, 4, 5 :: nat])) = 2
   \<and> length (items (foldl deque_append (deque_new 2) (take 3 [1, 2, 3, 4, 5 :: nat]))) \<le> 2
   \<and> drain_queue_to_buffer True
     \<lparr>ss_data = replicate 4000 \<lparr>rec_t = Fin 0, rec_V = Fin 3, rec_pH_arduino = Fin 1, rec_pH_nernst = Fin 1,
           rec_pH_local = None\<rparr>,
        ss_q = [DATA (Fin 1) (Fin (5 / 2)) (Fin 7) (Fin 7), LOG (ustr ''boot''),
                DATA (Fin 2) (round_double (2677 / 1000)) (Fin 4) (Fin 4), ERROR (ustr ''lost''),
                DATA (Fin 3) (Fin 3) (Fin 1) (Fin 1)],
        ss_running = True, ss_stop_event = False, ss_calib = default_calib\<rparr>
   = Inr \<lparr>ss_data = replicate 3998 \<lparr>rec_t = Fin 0, rec_V = Fin 3, rec_pH_arduino = Fin 1, rec_pH_nernst = Fin 1,
           rec_pH_local = None\<rparr> @ [\<lparr>rec_t = Fin 1, rec_V = Fin (5 / 2), rec_pH_arduino = Fin 7, rec_pH_nernst = Fin 7,
           rec_pH_local = Some (Fin 7)\<rparr>, \<lparr>rec_t = Fin 2, rec_V = round_double (2677 / 1000), rec_pH_arduino = Fin 4,
           rec_pH_nernst = Fin 4, rec_pH_local = Some (Fin 4)\<rparr>],
        ss_q = [DATA (Fin 3) (Fin 3) (Fin 1) (Fin 1)],
        ss_running = False, ss_stop_event = True, ss_calib = default_calib\<rparr>
   \<and> length (replicate 3998 \<lparr>rec_t = Fin 0, rec_V = Fin 3, rec_pH_arduino = Fin 1, rec_pH_nernst = Fin 1,
           rec_pH_local = None\<rparr> @ [\<lparr>rec_t = Fin 1, rec_V = Fin (5 / 2), rec_pH_arduino = Fin 7, rec_pH_nernst = Fin 7,
           rec_pH_local = Some (Fin 7)\<rparr>, \<lparr>rec_t = Fin 2, rec_V = round_double (2677 / 1000), rec_pH_arduino = Fin 4,
           rec_pH_nernst = Fin 4, rec_pH_local = Some (Fin 4)\<rparr>]) \<le> MAX_POINTS
   \<and> replicate 3998 \<lparr>rec_t = Fin 0, rec_V = Fin 3, rec_pH_arduino = Fin 1, rec_pH_nernst = Fin 1,
           rec_pH_local = None\<rparr> @ [\<lparr>rec_t = Fin 1, rec_V = Fin (5 / 2), rec_pH_arduino = Fin 7, rec_pH_nernst = Fin 7,
           rec_pH_local = Some (Fin 7)\<rparr>, \<lparr>rec_t = Fin 2, rec_V = round_double (2677 / 1000), rec_pH_arduino = Fin 4,
           rec_pH_nernst = Fin 4, rec_pH_local = Some (Fin 4)\<rparr>]
     = drop (length (replicate 4000 \<lparr>rec_t = Fin 0, rec_V = Fin 3, rec_pH_arduino = Fin 1, rec_pH_nernst = Fin 1,
           rec_pH_local = None\<rparr> @ [\<lparr>rec_t = Fin 1, rec_V = Fin (5 / 2), rec_pH_arduino = Fin 7, rec_pH_nernst = Fin 7,
           rec_pH_local = Some (Fin 7)\<rparr>, \<lparr>rec_t = Fin 2, rec_V = round_double (2677 / 1000), rec_pH_arduino = Fin 4,
           rec_pH_nernst = Fin 4, rec_pH_local = Some (Fin 4)\<rparr>]) - MAX_POINTS)
         (replicate 4000 \<lparr>rec_t = Fin 0, rec_V = Fin 3, rec_pH_arduino = Fin 1, rec_pH_nernst = Fin 1,
           rec_pH_local = None\<rparr> @ [\<lparr>rec_t = Fin 1, rec_V = Fin (5 / 2), rec_pH_arduino = Fin 7, rec_pH_nernst = Fin 7,
           rec_pH_local = Some (Fin 7)\<rparr>, \<lparr>rec_t = Fin 2, rec_V = round_double (2677 / 1000), rec_pH_arduino = Fin 4,
           rec_pH_nernst = Fin 4, rec_pH_local = Some (Fin 4)\<rparr>])
   \<and> drain_queue_to_buffer False
     \<lparr>ss_data = [], ss_q = replicate 4001 (DATA (Fin 1) (Fin (5 / 2)) (Fin 7) (Fin 7)),
        ss_running = True, ss_stop_event = False, ss_calib = default_calib\<rparr>
   = Inr \<lparr>ss_data = replicate 4000 \<lparr>rec_t = Fin 1, rec_V = Fin (5 / 2), rec_pH_arduino = Fin 7, rec_pH_nernst = Fin 7,
           rec_pH_local = None\<rparr>,
        ss_q = [], ss_running = True, ss_stop_event = False, ss_calib = default_calib\<rparr>
   \<and> replicate 4000 \<lparr>rec_t = Fin 1, rec_V = Fin (5 / 2), rec_pH_arduino = Fin 7, rec_pH_nernst = Fin 7,
           rec_pH_local = None\<rparr>
     = drop 1 (replicate 4001 \<lparr>rec_t = Fin 1, rec_V = Fin (5 / 2), rec_pH_arduino = Fin 7, rec_pH_nernst = Fin 7,
           rec_pH_local = None\<rparr>)
   \<and> length (replicate 4000 \<lparr>rec_t = Fin 1, rec_V = Fin (5 / 2), rec_pH_arduino = Fin 7, rec_pH_nernst = Fin 7,
           rec_pH_local = None\<rparr>) = MAX_POINTS"
proof -
  define r0 where "r0 = \<lparr>rec_t = Fin 0, rec_V = Fin 3, rec_pH_arduino = Fin 1, rec_pH_nernst = Fin 1,
           rec_pH_local = None\<rparr>"
  define r1 where "r1 = \<lparr>rec_t = Fin 1, rec_V = Fin (5 / 2), rec_pH_arduino = Fin 7, rec_pH_nernst = Fin 7,
           rec_pH_local = Some (Fin 7)\<rparr>"
  define r2 where "r2 = \<lparr>rec_t = Fin 2, rec_V = round_double (2677 / 1000), rec_pH_arduino = Fin 4,
           rec_pH_nernst = Fin 4, rec_pH_local = Some (Fin 4)\<rparr>"
  define rd where "rd = \<lparr>rec_t = Fin 1, rec_V = Fin (5 / 2), rec_pH_arduino = Fin 7, rec_pH_nernst = Fin 7,
           rec_pH_local = None\<rparr>"
  define s0 where "s0 = \<lparr>ss_data = replicate 4000 \<lparr>rec_t = Fin 0, rec_V = Fin 3, rec_pH_arduino = Fin 1, rec_pH_nernst = Fin 1,
           rec_pH_local = None\<rparr>,
        ss_q = [DATA (Fin 1) (Fin (5 / 2)) (Fin 7) (Fin 7), LOG (ustr ''boot''),
                DATA (Fin 2) (round_double (2677 / 1000)) (Fin 4) (Fin 4), ERROR (ustr ''lost''),
                DATA (Fin 3) (Fin 3) (Fin 1) (Fin 1)],
        ss_running = True, ss_stop_event = False, ss_calib = default_calib\<rparr>"
  define s1 where "s1 = \<lparr>ss_data = replicate 3998 \<lparr>rec_t = Fin 0, rec_V = Fin 3, rec_pH_arduino = Fin 1, rec_pH_nernst = Fin 1,
           rec_pH_local = None\<rparr> @ [\<lparr>rec_t = Fin 1, rec_V = Fin (5 / 2), rec_pH_arduino = Fin 7, rec_pH_nernst = Fin 7,
           rec_pH_local = Some (Fin 7)\<rparr>, \<lparr>rec_t = Fin 2, rec_V = round_double (2677 / 1000), rec_pH_arduino = Fin 4,
           rec_pH_nernst = Fin 4, rec_pH_local = Some (Fin 4)\<rparr>],
        ss_q = [DATA (Fin 3) (Fin 3) (Fin 1) (Fin 1)],
        ss_running = False, ss_stop_event = True, ss_calib = default_calib\<rparr>"
  define e0 where "e0 = \<lparr>ss_data = [], ss_q = replicate 4001 (DATA (Fin 1) (Fin (5 / 2)) (Fin 7) (Fin 7)),
        ss_running = True, ss_stop_event = False, ss_calib = default_calib\<rparr>"
  define e2 where "e2 = \<lparr>ss_data = replicate 4000 \<lparr>rec_t = Fin 1, rec_V = Fin (5 / 2), rec_pH_arduino = Fin 7, rec_pH_nernst = Fin 7,
           rec_pH_local = None\<rparr>,
        ss_q = [], ss_running = True, ss_stop_event = False, ss_calib = default_calib\<rparr>"
  have run: "drain_queue_to_buffer True s0 = Inr s1"
    unfolding s0_def s1_def by (rule demo_drain)
  have full: "ss_data s0 = drop (length (replicate 4000 r0) - MAX_POINTS) (replicate 4000 r0)"
    by (simp add: s0_def r0_def MAX_POINTS_def)
  have new: "new_records True (ss_calib s0) (ss_q s0) = [r1, r2]"
    by (simp add: s0_def r1_def r2_def from_voltage_default)
  have out: "ss_data s1 = replicate 3998 r0 @ [r1, r2]"
    by (simp add: s1_def r0_def r1_def r2_def)
  have run': "drain_queue_to_buffer False e0 = Inr e2"
    unfolding e0_def e2_def by (rule demo_drain_overflow(2))
  have new': "new_records False (ss_calib e0) (ss_q e0) = replicate 4001 rd"
    by (simp add: e0_def rd_def new_records_replicate)
  have empty: "ss_data e0 = [] \<and> length (new_records False (ss_calib e0) (ss_q e0)) = MAX_POINTS + 1"
    unfolding new' by (simp add: e0_def MAX_POINTS_def)
  have out': "ss_data e2 = replicate 4000 rd"
    by (simp add: e2_def rd_def)
  note T = buffer_fifo_capacity[where xs = "[1, 2, 3, 4, 5 :: nat]" and C = 2 and k = 3
      and u = True and s = s0 and s' = s1 and hist = "replicate 4000 r0"]
  note T' = buffer_fifo_capacity[where u = False and s = e0 and s' = e2 and j = 1]
  from T have a: "items (foldl deque_append (deque_new 2) [1, 2, 3, 4, 5 :: nat]) = [4, 5]
     \<and> length (items (foldl deque_append (deque_new 2) [1, 2, 3, 4, 5 :: nat])) = 2"
    by simp
  from T[THEN conjunct2, THEN conjunct1, rule_format, of 3]
  have b: "length (items (foldl deque_append (deque_new 2) (take 3 [1, 2, 3, 4, 5 :: nat]))) \<le> 2"
    by simp
  note D = T[THEN conjunct2, THEN conjunct2, THEN conjunct1, THEN mp, OF run]
  from D[THEN conjunct2, THEN conjunct1]
  have c: "length (replicate 3998 r0 @ [r1, r2]) \<le> MAX_POINTS" unfolding out .
  from D[THEN conjunct2, THEN conjunct2, THEN conjunct1, THEN mp, OF full]
  have d: "replicate 3998 r0 @ [r1, r2]
     = drop (length (replicate 4000 r0 @ [r1, r2]) - MAX_POINTS) (replicate 4000 r0 @ [r1, r2])"
    unfolding out new .
  note D' = T'[THEN conjunct2, THEN conjunct2, THEN conjunct1, THEN mp, OF run']
  note W = D'[THEN conjunct2, THEN conjunct2, THEN conjunct2, THEN mp, OF empty]
  from W[THEN conjunct1] have e: "replicate 4000 rd = drop 1 (replicate 4001 rd)"
    unfolding out' new' .
  from W[THEN conjunct2] have f: "length (replicate 4000 rd) = MAX_POINTS"
    unfolding out' .
  from a b run c d run' e f show ?thesis
    unfolding s0_def s1_def e0_def e2_def r0_def r1_def r2_def rd_def
    by (intro conjI) (erule conjunct1 conjunct2 | assumption)+
qed

lemma demo_run_two:
  "script_runs ascii_db
     [Run (scenario_config (Fin 25) (Fin (5 / 2))) (Fin 1) (SerialLine (ustr ''V=2.500'')),
      Run (scenario_config (Fin 25) (Fin (5 / 2))) (Fin 2) (SerialLine (ustr ''garbage'')),
      Run (scenario_config (Fin 25) (Fin (5 / 2))) (Fin 3) (SerialLine (ustr ''V=2.677''))]
     (new_session 3 (Fin 0))
   = Inr \<lparr>t0 = Fin 0,
        buf_V = \<lparr>maxlen = 3, items = [Fin (5 / 2), round_double (2677 / 1000)]\<rparr>,
        buf_pH_tp = \<lparr>maxlen = 3, items = [Fin 7, Fin 4]\<rparr>,
        buf_pH_nernst = \<lparr>maxlen = 3, items = [Fin 7, Fin (1128174422178999 / 281474976710656)]\<rparr>,
        buf_t = \<lparr>maxlen = 3, items = [Fin 1, Fin 3]\<rparr>\<rparr>"
  by (simp add: update_buffers_def acquire_line_2500 acquire_line_garbage acquire_line_2677
      scenario_config_def two_point_ex1 two_point_ex2 nernst_default nernst_2677 new_session_def
      deque_new_def deque_append_def py_round3_one py_round3_three bnd_def)

lemma df_tail_last:
  "df_tail (int n) rows = drop (length rows - min n (length rows)) rows"
  by (cases "n = 0") (simp_all add: df_tail_def min_def)

text \<open>
  C9.  Pressing the reset button empties the four buffers and sets the start time to the
  time of the press.  Doing it twice leaves the same state as doing it once: at the same
  instant nothing changes, and in general only the later press counts.
\<close>

theorem reset_idempotent:
  "reset_buffers now (reset_buffers now st) = reset_buffers now st
   \<and> reset_buffers later (reset_buffers now st) = reset_buffers later st
   \<and> items (buf_V (reset_buffers now st)) = []
   \<and> items (buf_pH_tp (reset_buffers now st)) = []
   \<and> items (buf_pH_nernst (reset_buffers now st)) = []
   \<and> items (buf_t (reset_buffers now st)) = []
   \<and> t0 (reset_buffers now st) = now"
  by (simp add: reset_buffers_def deque_clear_def)

text \<open>
  C8.  In every state the script can reach, building the frames succeeds and leaves the
  session state as it was.  The rows of the full frame are the samples in the buffers:
  its four columns are the items of the four buffers, index by index, which are the last
  \<open>C\<close> samples acquired since the last reset.  The window of \<open>n\<close> rows is the last \<open>min n m\<close>
  of the \<open>m\<close> rows of the full frame, in their order, and the whole frame when \<open>m < n\<close>:
  no row of the window is anything but a row of the frame.
\<close>

theorem window_last_rows:
  assumes "script_runs U evs (new_session C now) = Inr st"
  shows "\<exists>df. data_frames (int n) st = (Inr (df, df_tail (int n) df), st)
           \<and> map t_rel df = items (buf_t st)
           \<and> map V df = items (buf_V st)
           \<and> map pH_tp df = items (buf_pH_tp st)
           \<and> map pH_nernst df = items (buf_pH_nernst st)
           \<and> df = drop (length (snd (sample_log U evs now)) - C) (snd (sample_log U evs now))
           \<and> df_tail (int n) df = drop (length df - min n (length df)) df
           \<and> length (df_tail (int n) df) = min n (length df)
           \<and> (length df < n \<longrightarrow> df_tail (int n) df = df)"
proof -
  define hist where "hist = snd (sample_log U evs now)"
  from holds_last_runs[OF holds_last_new(1)[of C now], of U evs] assms
  have h: "holds_last C hist st" by (auto simp: sample_log_def holds_last_new(2) hist_def)
  define df where "df = drop (length hist - C) hist"
  have d: "data_frame st = Inr df" unfolding df_def using h by (rule holds_last_data_frame)
  have c: "map t_rel df = items (buf_t st)" "map V df = items (buf_V st)"
    "map pH_tp df = items (buf_pH_tp st)" "map pH_nernst df = items (buf_pH_nernst st)"
    using h by (simp_all add: holds_last_def df_def drop_map)
  have t: "df_tail (int n) df = drop (length df - min n (length df)) df" by (rule df_tail_last)
  have l: "length (df_tail (int n) df) = min n (length df)" unfolding t by simp
  have w: "length df < n \<longrightarrow> df_tail (int n) df = df" unfolding t by simp
  have f: "data_frames (int n) st = (Inr (df, df_tail (int n) df), st)"
    by (simp add: data_frames_def d bnd_def)
  from f c t l w show ?thesis unfolding df_def hist_def by blast
qed

theorem window_last_rows_witness:
  "data_frames 1
     \<lparr>t0 = Fin 0,
        buf_V = \<lparr>maxlen = 3, items = [Fin (5 / 2), round_double (2677 / 1000)]\<rparr>,
        buf_pH_tp = \<lparr>maxlen = 3, items = [Fin 7, Fin 4]\<rparr>,
        buf_pH_nernst = \<lparr>maxlen = 3, items = [Fin 7, Fin (1128174422178999 / 281474976710656)]\<rparr>,
        buf_t = \<lparr>maxlen = 3, items = [Fin 1, Fin 3]\<rparr>\<rparr>
   = (Inr ([\<lparr>t_rel = Fin 1, V = Fin (5 / 2), pH_tp = Fin 7, pH_nernst = Fin 7\<rparr>,
            \<lparr>t_rel = Fin 3, V = round_double (2677 / 1000), pH_tp = Fin 4,
           pH_nernst = Fin (1128174422178999 / 281474976710656)\<rparr>],
           [\<lparr>t_rel = Fin 3, V = round_double (2677 / 1000), pH_tp = Fin 4,
           pH_nernst = Fin (1128174422178999 / 281474976710656)\<rparr>]),
      \<lparr>t0 = Fin 0,
        buf_V = \<lparr>maxlen = 3, items = [Fin (5 / 2), round_double (2677 / 1000)]\<rparr>,
        buf_pH_tp = \<lparr>maxlen = 3, items = [Fin 7, Fin 4]\<rparr>,
        buf_pH_nernst = \<lparr>maxlen = 3, items = [Fin 7, Fin (1128174422178999 / 281474976710656)]\<rparr>,
        buf_t = \<lparr>maxlen = 3, items = [Fin 1, Fin 3]\<rparr>\<rparr>)
   \<and> data_frames 5
     \<lparr>t0 = Fin 0,
        buf_V = \<lparr>maxlen = 3, items = [Fin (5 / 2), round_double (2677 / 1000)]\<rparr>,
        buf_pH_tp = \<lparr>maxlen = 3, items = [Fin 7, Fin 4]\<rparr>,
        buf_pH_nernst = \<lparr>maxlen = 3, items = [Fin 7, Fin (1128174422178999 / 281474976710656)]\<rparr>,
        buf_t = \<lparr>maxlen = 3, items = [Fin 1, Fin 3]\<rparr>\<rparr>
   = (Inr ([\<lparr>t_rel = Fin 1, V = Fin (5 / 2), pH_tp = Fin 7, pH_nernst = Fin 7\<rparr>,
            \<lparr>t_rel = Fin 3, V = round_double (2677 / 1000), pH_tp = Fin 4,
           pH_nernst = Fin (1128174422178999 / 281474976710656)\<rparr>],
           [\<lparr>t_rel = Fin 1, V = Fin (5 / 2), pH_tp = Fin 7, pH_nernst = Fin 7\<rparr>,
            \<lparr>t_rel = Fin 3, V = round_double (2677 / 1000), pH_tp = Fin 4,
           pH_nernst = Fin (1128174422178999 / 281474976710656)\<rparr>]),
      \<lparr>t0 = Fin 0,
        buf_V = \<lparr>maxlen = 3, items = [Fin (5 / 2), round_double (2677 / 1000)]\<rparr>,
        buf_pH_tp = \<lparr>maxlen = 3, items = [Fin 7, Fin 4]\<rparr>,
        buf_pH_nernst = \<lparr>maxlen = 3, items = [Fin 7, Fin (1128174422178999 / 281474976710656)]\<rparr>,
        buf_t = \<lparr>maxlen = 3, items = [Fin 1, Fin 3]\<rparr>\<rparr>)"
proof -
  define st where "st = \<lparr>t0 = Fin 0,
        buf_V = \<lparr>maxlen = 3, items = [Fin (5 / 2), round_double (2677 / 1000)]\<rparr>,
        buf_pH_tp = \<lparr>maxlen = 3, items = [Fin 7, Fin 4]\<rparr>,
        buf_pH_nernst = \<lparr>maxlen = 3, items = [Fin 7, Fin (1128174422178999 / 281474976710656)]\<rparr>,
        buf_t = \<lparr>maxlen = 3, items = [Fin 1, Fin 3]\<rparr>\<rparr>"
  define row1 where "row1 = \<lparr>t_rel = Fin 1, V = Fin (5 / 2), pH_tp = Fin 7, pH_nernst = Fin 7\<rparr>"
  define row2 where "row2 = \<lparr>t_rel = Fin 3, V = round_double (2677 / 1000), pH_tp = Fin 4,
           pH_nernst = Fin (1128174422178999 / 281474976710656)\<rparr>"
  have run: "script_runs ascii_db
     [Run (scenario_config (Fin 25) (Fin (5 / 2))) (Fin 1) (SerialLine (ustr ''V=2.500'')),
      Run (scenario_config (Fin 25) (Fin (5 / 2))) (Fin 2) (SerialLine (ustr ''garbage'')),
      Run (scenario_config (Fin 25) (Fin (5 / 2))) (Fin 3) (SerialLine (ustr ''V=2.677''))]
     (new_session 3 (Fin 0)) = Inr st"
    unfolding st_def by (rule demo_run_two)
  have rows: "df = [row1, row2]"
    if "map t_rel df = items (buf_t st)" "map V df = items (buf_V st)"
      "map pH_tp df = items (buf_pH_tp st)" "map pH_nernst df = items (buf_pH_nernst st)" for df
  proof -
    from that(1) obtain a b where df: "df = [a, b]" by (auto simp: st_def map_eq_Cons_conv)
    from that df show ?thesis by (simp add: st_def row1_def row2_def)
  qed
  from window_last_rows[OF run, of 1]
  obtain df where f: "data_frames (int 1) st = (Inr (df, df_tail (int 1) df), st)"
    and c: "map t_rel df = items (buf_t st)" "map V df = items (buf_V st)"
      "map pH_tp df = items (buf_pH_tp st)" "map pH_nernst df = items (buf_pH_nernst st)"
    and t: "df_tail (int 1) df = drop (length df - min 1 (length df)) df"
    by blast
  have "df_tail (int 1) [row1, row2] = [row2]" using t unfolding rows[OF c] by simp
  then have one: "data_frames 1 st = (Inr ([row1, row2], [row2]), st)"
    using f unfolding rows[OF c] by simp
  from window_last_rows[OF run, of 5]
  obtain df' where f': "data_frames (int 5) st = (Inr (df', df_tail (int 5) df'), st)"
    and c': "map t_rel df' = items (buf_t st)" "map V df' = items (buf_V st)"
      "map pH_tp df' = items (buf_pH_tp st)" "map pH_nernst df' = items (buf_pH_nernst st)"
    and w: "length df' < 5 \<longrightarrow> df_tail (int 5) df' = df'"
    by blast
  have "df_tail (int 5) [row1, row2] = [row1, row2]" using w unfolding rows[OF c'] by simp
  then have five: "data_frames 5 st = (Inr ([row1, row2], [row1, row2]), st)"
    using f' unfolding rows[OF c'] by simp
  from one five show ?thesis unfolding st_def row1_def row2_def by (rule conjI)
qed

text \<open>
  C10.  Whatever runs and resets happen in a session, the script never fails, the four
  buffers have the same length, and they are the four columns of the last \<open>C\<close> samples
  acquired since the last reset, so one index denotes one sample in all of them.  A run
  appends to all four buffers when a voltage was acquired and changes nothing otherwise;
  a reset empties all four.
\<close>

theorem buffers_stay_parallel:
  "(\<exists>st'. script_runs U evs (new_session C now) = Inr st'
       \<and> length (items (buf_V st')) = length (items (buf_t st'))
       \<and> length (items (buf_pH_tp st')) = length (items (buf_t st'))
       \<and> length (items (buf_pH_nernst st')) = length (items (buf_t st'))
       \<and> t0 st' = fst (sample_log U evs now)
       \<and> holds_last C (snd (sample_log U evs now)) st')
   \<and> (\<exists>st'. update_buffers U cfg t a st = Inr st'
       \<and> (case acquire_voltage U a of
             None \<Rightarrow> st' = st
           | Some v \<Rightarrow>
               (\<exists>tp ne. st' = st\<lparr>buf_V := deque_append (buf_V st) v,
                                 buf_pH_tp := deque_append (buf_pH_tp st) tp,
                                 buf_pH_nernst := deque_append (buf_pH_nernst st) ne,
                                 buf_t := deque_append (buf_t st) (py_round3 (f_sub t (t0 st)))\<rparr>)))
   \<and> items (buf_V (reset_buffers t st)) = []
   \<and> items (buf_pH_tp (reset_buffers t st)) = []
   \<and> items (buf_pH_nernst (reset_buffers t st)) = []
   \<and> items (buf_t (reset_buffers t st)) = []"
proof (intro conjI)
  from holds_last_runs[OF holds_last_new(1)[of C now], of U evs]
  obtain st' where r: "script_runs U evs (new_session C now) = Inr st'"
    and z: "t0 st' = fst (sample_log U evs now)"
    and h: "holds_last C (snd (sample_log U evs now)) st'"
    by (auto simp: sample_log_def holds_last_new(2))
  from h have "length (items (buf_V st')) = length (items (buf_t st'))"
    "length (items (buf_pH_tp st')) = length (items (buf_t st'))"
    "length (items (buf_pH_nernst st')) = length (items (buf_t st'))"
    by (simp_all add: holds_last_def)
  with r z h show "\<exists>st'. script_runs U evs (new_session C now) = Inr st'
       \<and> length (items (buf_V st')) = length (items (buf_t st'))
       \<and> length (items (buf_pH_tp st')) = length (items (buf_t st'))
       \<and> length (items (buf_pH_nernst st')) = length (items (buf_t st'))
       \<and> t0 st' = fst (sample_log U evs now)
       \<and> holds_last C (snd (sample_log U evs now)) st'" by blast
next
  from update_buffers_step[of U cfg t a st]
  show "\<exists>st'. update_buffers U cfg t a st = Inr st'
       \<and> (case acquire_voltage U a of
             None \<Rightarrow> st' = st
           | Some v \<Rightarrow>
               (\<exists>tp ne. st' = st\<lparr>buf_V := deque_append (buf_V st) v,
                                 buf_pH_tp := deque_append (buf_pH_tp st) tp,
                                 buf_pH_nernst := deque_append (buf_pH_nernst st) ne,
                                 buf_t := deque_append (buf_t st) (py_round3 (f_sub t (t0 st)))\<rparr>))"
    by (cases "acquire_voltage U a") auto
qed (simp_all add: reset_buffers_def deque_clear_def)

theorem buffers_stay_parallel_witness:
  "\<exists>st'. script_runs ascii_db
           [Run default_config (Fin 1) (SerialLine (ustr ''V=2.500'')), ResetPressed (Fin 2),
            Run default_config (Fin 3) (SerialLine (ustr ''garbage''))]
           (new_session 3 (Fin 0)) = Inr st'
       \<and> length (items (buf_V st')) = length (items (buf_t st'))
       \<and> length (items (buf_pH_tp st')) = length (items (buf_t st'))
       \<and> length (items (buf_pH_nernst st')) = length (items (buf_t st'))"
  using buffers_stay_parallel[of ascii_db
           "[Run default_config (Fin 1) (SerialLine (ustr ''V=2.500'')), ResetPressed (Fin 2),
            Run default_config (Fin 3) (SerialLine (ustr ''garbage''))]" 3 "Fin 0"]
  by blast

section \<open>Degenerate calibration and the end-to-end scenario\<close>

lemma two_point_degenerate:
  "f_lt (f_abs (f_sub V2 V1)) (round_double (1 / 10 ^ 12)) \<Longrightarrow> ph_two_point v pH1 V1 pH2 V2 = Inr NaN"
  "V1 \<noteq> NaN \<Longrightarrow> ph_two_point v pH1 V1 pH2 V1 = Inr NaN"
proof -
  show "f_lt (f_abs (f_sub V2 V1)) (round_double (1 / 10 ^ 12)) \<Longrightarrow> ph_two_point v pH1 V1 pH2 V2 = Inr NaN"
    by (simp add: ph_two_point_def)
  show "V1 \<noteq> NaN \<Longrightarrow> ph_two_point v pH1 V1 pH2 V1 = Inr NaN"
  proof (cases V1)
    case (Fin x)
    then have "f_sub V1 V1 = Fin 0" by (simp add: f_sub_def)
    then show ?thesis using ph_two_point_guard_zero[of V1 V1] by (simp add: ph_two_point_def)
  next
    case PInf
    then show ?thesis by (simp add: ph_two_point_def f_sub_def bnd_def)
  next
    case NInf
    then show ?thesis by (simp add: ph_two_point_def f_sub_def bnd_def)
  next
    case NaN
    assume "V1 \<noteq> NaN"
    with NaN show ?thesis by simp
  qed
qed

text \<open>
  C2.  With \<open>V1 = V2\<close> the calibration record of the threaded variant divides by zero:
  \<open>ph_from_voltage\<close> raises \<open>ZeroDivisionError\<close>, where \<open>ph_two_point\<close> of the main
  dashboard returns not-a-number on the same parameters.
\<close>

theorem calib_params_division_by_zero:
  "ph_from_voltage \<lparr>cp_pH1 = Fin 7, cp_V1 = Fin (5 / 2), cp_pH2 = Fin 4, cp_V2 = Fin (5 / 2),
                     cp_tempC = Fin 25\<rparr> (Fin (5 / 2)) = Inl ZeroDivisionError
   \<and> ph_two_point (Fin (5 / 2)) (Fin 7) (Fin (5 / 2)) (Fin 4) (Fin (5 / 2)) = Inr NaN"
  using two_point_degenerate(2)[of "Fin (5 / 2)" "Fin (5 / 2)" "Fin 7" "Fin 4"]
  by (simp add: ph_from_voltage_def a_gain_def f_sub_def bnd_def)

text \<open>
  C7.  The three lines \<open>V=2.500\<close>, \<open>garbage\<close>, \<open>V=2.677\<close>, fed through three runs of the
  script with the scenario's two-point parameters, leave two samples in arrival order:
  voltage 2.5 with two-point pH 7, then voltage 2.677 with two-point pH 4.  The line
  \<open>garbage\<close> yields no voltage and leaves nothing in the buffers.
\<close>

theorem end_to_end_three_lines:
  "\<exists>st' ne1 ne3.
     script_runs U
       [Run (scenario_config temp e0) t1 (SerialLine (ustr ''V=2.500'')),
        Run (scenario_config temp e0) t2 (SerialLine (ustr ''garbage'')),
        Run (scenario_config temp e0) t3 (SerialLine (ustr ''V=2.677''))]
       (new_session MAX_BUFFER tz) = Inr st'
     \<and> data_frame st' =
         Inr [\<lparr>t_rel = py_round3 (f_sub t1 tz), V = Fin (5 / 2), pH_tp = Fin 7, pH_nernst = ne1\<rparr>,
              \<lparr>t_rel = py_round3 (f_sub t3 tz), V = round_double (2677 / 1000), pH_tp = Fin 4,
               pH_nernst = ne3\<rparr>]
     \<and> items (buf_pH_tp st') = [Fin 7, Fin 4]
     \<and> items (buf_V st') = [Fin (5 / 2), round_double (2677 / 1000)]
     \<and> length (items (buf_t st')) = 2 \<and> length (items (buf_pH_nernst st')) = 2
     \<and> acquire_voltage U (SerialLine (ustr ''garbage'')) = None"
proof -
  obtain ne1 where n1: "ph_nernst (Fin (5 / 2)) e0 temp (- 1) = Inr ne1"
    using ph_nernst_total[of "- 1"] by blast
  obtain ne3 where n3: "ph_nernst (round_double (2677 / 1000)) e0 temp (- 1) = Inr ne3"
    using ph_nernst_total[of "- 1"] by blast
  define st' where "st' = \<lparr>t0 = tz,
      buf_V = \<lparr>maxlen = MAX_BUFFER, items = [Fin (5 / 2), round_double (2677 / 1000)]\<rparr>,
      buf_pH_tp = \<lparr>maxlen = MAX_BUFFER, items = [Fin 7, Fin 4]\<rparr>,
      buf_pH_nernst = \<lparr>maxlen = MAX_BUFFER, items = [ne1, ne3]\<rparr>,
      buf_t = \<lparr>maxlen = MAX_BUFFER, items = [py_round3 (f_sub t1 tz), py_round3 (f_sub t3 tz)]\<rparr>\<rparr>"
  have run: "script_runs U
       [Run (scenario_config temp e0) t1 (SerialLine (ustr ''V=2.500'')),
        Run (scenario_config temp e0) t2 (SerialLine (ustr ''garbage'')),
        Run (scenario_config temp e0) t3 (SerialLine (ustr ''V=2.677''))]
       (new_session MAX_BUFFER tz) = Inr st'"
    by (simp add: update_buffers_def acquire_line_2500 acquire_line_garbage acquire_line_2677
        scenario_config_def two_point_ex1 two_point_ex2 n1 n3 new_session_def deque_new_def
        deque_append_def bnd_def MAX_BUFFER_def st'_def)
  have df: "data_frame st' =
         Inr [\<lparr>t_rel = py_round3 (f_sub t1 tz), V = Fin (5 / 2), pH_tp = Fin 7, pH_nernst = ne1\<rparr>,
              \<lparr>t_rel = py_round3 (f_sub t3 tz), V = round_double (2677 / 1000), pH_tp = Fin 4,
               pH_nernst = ne3\<rparr>]"
    by (simp add: data_frame_def st'_def)
  show ?thesis
    apply (rule exI[of _ st'], rule exI[of _ ne1], rule exI[of _ ne3])
    using run df by (simp add: acquire_line_garbage) (simp add: st'_def)
qed

theorem end_to_end_three_lines_witness:
  "\<exists>st' ne1 ne3.
     script_runs ascii_db
       [Run (scenario_config (Fin 25) (Fin (5 / 2))) (Fin 1) (SerialLine (ustr ''V=2.500'')),
        Run (scenario_config (Fin 25) (Fin (5 / 2))) (Fin 2) (SerialLine (ustr ''garbage'')),
        Run (scenario_config (Fin 25) (Fin (5 / 2))) (Fin 3) (SerialLine (ustr ''V=2.677''))]
       (new_session MAX_BUFFER (Fin 0)) = Inr st'
     \<and> data_frame st' =
         Inr [\<lparr>t_rel = py_round3 (f_sub (Fin 1) (Fin 0)), V = Fin (5 / 2), pH_tp = Fin 7, pH_nernst = ne1\<rparr>,
              \<lparr>t_rel = py_round3 (f_sub (Fin 3) (Fin 0)), V = round_double (2677 / 1000), pH_tp = Fin 4,
               pH_nernst = ne3\<rparr>]
     \<and> items (buf_pH_tp st') = [Fin 7, Fin 4]"
  using end_to_end_three_lines[of ascii_db "Fin 25" "Fin (5 / 2)" "Fin 1" "Fin 2" "Fin 3" "Fin 0"]
  by blast

section \<open>The Nernst slope\<close>

lemma rd_05916: "round_double (5916 / 100000) = Fin (8525854526567633 / 144115188075855872)"
  using round_double_cert[of "- 5" "5916 / 100000" "- 57" "8525854526567633"] by simp

lemma rd_1e4: "round_double (1 / 10000) = Fin (7378697629483821 / 73786976294838206464)"
  using round_double_cert[of "- 14" "1 / 10000" "- 66" "7378697629483821"] by simp

lemma rd_S25_diff: "round_double (- (93720007419 / 144115188075855872)) = Fin (- (93720007419 / 144115188075855872))"
  using round_double_cert[of "- 21" "- (93720007419 / 144115188075855872)" "- 73" "- 6142034406211584"] by simp

text \<open>
  C6.  \<open>nernst_slope_volt_per_pH\<close> evaluates \<open>(R * (temp_c + 273.15) / F) * LN10\<close> in double
  arithmetic, with \<open>R\<close> and \<open>F\<close> the doubles nearest to 8.31446261815324 and 96485.33212
  and \<open>LN10\<close> the double that \<^verbatim>\<open>math.log(10.0)\<close> returns.  At 25 degrees it returns
  0.059159349686811843, which is within \<open>1e-4\<close> of 0.05916, as real numbers and also when
  the comparison itself is made in double arithmetic.
\<close>

theorem nernst_slope_value:
  "(\<exists>q. f_div (f_mul R_const (f_add temp_c (round_double (27315 / 100)))) F_const = Inr q
        \<and> nernst_slope_volt_per_pH temp_c = Inr (f_mul q LN10))
   \<and> R_const = round_double (831446261815324 / 10 ^ 14)
   \<and> F_const = round_double (9648533212 / 10 ^ 5)
   \<and> nernst_slope_volt_per_pH (Fin 25) = Inr (Fin (4262880403280107 / 2 ^ 56))
   \<and> \<bar>4262880403280107 / 2 ^ 56 - 5916 / 100000\<bar> \<le> (1 / 10000 :: real)
   \<and> f_le (f_abs (f_sub (Fin (4262880403280107 / 2 ^ 56)) (round_double (5916 / 100000))))
         (round_double (1 / 10000))"
proof (intro conjI)
  have "F_const \<noteq> Fin 0" unfolding F_const_def F_val by simp
  from f_div_total[OF this]
  obtain q where q: "f_div (f_mul R_const (f_add temp_c (round_double (27315 / 100)))) F_const = Inr q" ..
  then have "nernst_slope_volt_per_pH temp_c = Inr (f_mul q LN10)"
    by (simp add: nernst_slope_volt_per_pH_def bnd_def Let_def)
  with q show "\<exists>q. f_div (f_mul R_const (f_add temp_c (round_double (27315 / 100)))) F_const = Inr q
        \<and> nernst_slope_volt_per_pH temp_c = Inr (f_mul q LN10)" by blast
  show "R_const = round_double (831446261815324 / 10 ^ 14)" by (rule R_const_def)
  show "F_const = round_double (9648533212 / 10 ^ 5)" by (rule F_const_def)
  show "nernst_slope_volt_per_pH (Fin 25) = Inr (Fin (4262880403280107 / 2 ^ 56))"
    using nernst_slope_25 by simp
  show "\<bar>4262880403280107 / 2 ^ 56 - 5916 / 100000\<bar> \<le> (1 / 10000 :: real)" by simp
  show "f_le (f_abs (f_sub (Fin (4262880403280107 / 2 ^ 56)) (round_double (5916 / 100000))))
         (round_double (1 / 10000))"
    unfolding rd_05916 rd_1e4 by (simp add: f_sub_def rd_S25_diff)
qed

section \<open>The line parser\<close>




























section \<open>Accuracy of the two-point calibration\<close>

lemma round_half_even_ge:
  assumes "of_int n \<le> x" shows "n \<le> round_half_even x"
proof -
  have "\<bar>x - of_int (round_half_even x)\<bar> \<le> 1 / 2" by (rule round_half_even_err)
  then have "of_int n - 1 / 2 \<le> (of_int (round_half_even x) :: real)" using assms by linarith
  then have "(of_int n :: real) < of_int (round_half_even x) + 1" by linarith
  then have "n < round_half_even x + 1" by (metis of_int_1 of_int_add of_int_less_iff)
  then show ?thesis by simp
qed

lemma round_half_even_le:
  assumes "x \<le> of_int n" shows "round_half_even x \<le> n"
proof -
  have "\<bar>x - of_int (round_half_even x)\<bar> \<le> 1 / 2" by (rule round_half_even_err)
  then have "(of_int (round_half_even x) :: real) \<le> of_int n + 1 / 2" using assms by linarith
  then have "(of_int (round_half_even x) :: real) < of_int n + 1" by linarith
  then have "round_half_even x < n + 1" by (metis of_int_1 of_int_add of_int_less_iff)
  then show ?thesis by simp
qed

text \<open>The shape of a finite rounding result.\<close>

lemma round_double_Fin_shape:
  assumes "round_double x = Fin y" "x \<noteq> 0"
  shows "y = of_int (round_half_even (x / 2 powi (max (ilog2 \<bar>x\<bar> - 52) (- 1074))))
               * 2 powi (max (ilog2 \<bar>x\<bar> - 52) (- 1074))"
  using assms by (simp add: round_double_def Let_def split: if_splits)

lemma round_double_error_out:
  assumes "round_double x = Fin y"
  shows "\<bar>y - x\<bar> \<le> max (2 powi (- 53) * \<bar>y\<bar>) (2 powi (- 1075))"
proof (cases "x = 0")
  case True
  with assms show ?thesis by (simp add: round_double_def)
next
  case False
  define k where "k = ilog2 \<bar>x\<bar>"
  define e where "e = max (k - 52) (- 1074)"
  define m where "m = round_half_even (x / 2 powi e)"
  have p: "(0::real) < 2 powi e" by simp
  have y: "y = of_int m * 2 powi e"
    using round_double_Fin_shape[OF assms False] by (simp add: m_def e_def k_def)
  have "\<bar>x / 2 powi e - of_int m\<bar> \<le> 1 / 2" unfolding m_def by (rule round_half_even_err)
  then have "\<bar>x / 2 powi e - of_int m\<bar> * 2 powi e \<le> 1 / 2 * 2 powi e"
    using p by (intro mult_right_mono) auto
  then have "\<bar>x - of_int m * 2 powi e\<bar> \<le> 1 / 2 * 2 powi e"
    by (simp only: scale_abs[OF p])
  then have err: "\<bar>y - x\<bar> \<le> 1 / 2 * 2 powi e" unfolding y by (simp only: abs_minus_commute)
  have half: "1 / 2 * (2::real) powi e = 2 powi (e - 1)" by (simp add: power_int_diff)
  from False have "0 < \<bar>x\<bar>" by simp
  from ilog2_bounds[OF this] have kb: "2 powi k \<le> \<bar>x\<bar>" by (simp add: k_def)
  show ?thesis
  proof (cases "- 1074 \<le> k - 52")
    case True
    then have e: "e = k - 52" by (simp add: e_def)
    have k52: "(2::real) powi k = 2 ^ 52 * 2 powi e"
    proof -
      have "(2::real) powi (52 + e) = 2 powi 52 * 2 powi e" by (rule power_int_add) simp
      moreover have "k = 52 + e" using e by simp
      ultimately have "(2::real) powi k = 2 powi 52 * 2 powi e" by (simp only:)
      then show ?thesis by simp
    qed
    have big: "2 ^ 52 \<le> \<bar>m\<bar>"
    proof (cases "0 < x")
      case True
      then have "2 ^ 52 * 2 powi e \<le> x" using kb k52 by simp
      then have "2 ^ 52 \<le> x / 2 powi e" by (rule iffD2[OF pos_le_divide_eq[OF p]])
      then have "of_int (2 ^ 52) \<le> x / 2 powi e" by simp
      from round_half_even_ge[OF this] show ?thesis by (simp add: m_def)
    next
      case f: False
      then have "2 ^ 52 * 2 powi e \<le> - x" using kb k52 by simp
      then have "2 ^ 52 \<le> (- x) / 2 powi e" by (rule iffD2[OF pos_le_divide_eq[OF p]])
      then have "x / 2 powi e \<le> of_int (- (2 ^ 52))" by simp
      from round_half_even_le[OF this] show ?thesis by (simp add: m_def)
    qed
    have "\<bar>y\<bar> = of_int \<bar>m\<bar> * 2 powi e" unfolding y using p by (simp add: abs_mult)
    moreover have "(2::real) ^ 52 \<le> of_int \<bar>m\<bar>" using big by (metis of_int_le_iff of_int_numeral of_int_power)
    ultimately have "2 ^ 52 * 2 powi e \<le> \<bar>y\<bar>" using p by simp
    then have yk: "2 powi k \<le> \<bar>y\<bar>" using k52 by simp
    have "e - 1 = - 53 + k" using e by simp
    then have "(2::real) powi (e - 1) = 2 powi (- 53 + k)" by (simp only:)
    also have "\<dots> = 2 powi (- 53) * 2 powi k" by (rule power_int_add) simp
    also have "\<dots> \<le> 2 powi (- 53) * \<bar>y\<bar>" using yk by (intro mult_left_mono) auto
    finally show ?thesis using err half by simp
  next
    case False
    then have "e = - 1074" by (simp add: e_def)
    then have "(2::real) powi (e - 1) = 2 powi (- 1075)" by simp
    then show ?thesis using err half by simp
  qed
qed

lemma round_double_err_sum:
  assumes "round_double x = Fin y"
  shows "\<bar>y - x\<bar> \<le> 2 powi (- 53) * \<bar>y\<bar> + 2 powi (- 1075)"
proof -
  have "(0::real) \<le> 2 powi (- 53) * \<bar>y\<bar>" "(0::real) \<le> 2 powi (- 1075)" by simp_all
  with round_double_error_out[OF assms] show ?thesis by linarith
qed

lemma f_add_Fin:
  assumes "f_add a b = Fin r"
  shows "\<exists>x y. a = Fin x \<and> b = Fin y \<and> round_double (x + y) = Fin r"
  using assms by (cases a; cases b) auto

lemma f_sub_Fin:
  assumes "f_sub a b = Fin r"
  shows "\<exists>x y. a = Fin x \<and> b = Fin y \<and> round_double (x - y) = Fin r"
  using assms unfolding f_sub_def by (cases a; cases b) auto

lemma f_mul_Fin:
  assumes "f_mul a b = Fin r"
  shows "\<exists>x y. a = Fin x \<and> b = Fin y \<and> round_double (x * y) = Fin r"
  using assms by (cases a; cases b) (auto simp: inf_of_sign_def split: if_splits)

lemma f_div_Fin:
  assumes "f_div a (Fin d) = Inr (Fin q)"
  shows "d \<noteq> 0 \<and> (\<exists>x. a = Fin x \<and> round_double (x / d) = Fin q)"
  using assms by (cases a) (auto simp: inf_of_sign_def split: if_splits)

lemma lit_p696: "round_double (696 / 100) = Fin (7836263351624663 / 1125899906842624)"
  using round_double_cert[of "2" "696 / 100" "- 50" "7836263351624663"] by simp

lemma lit_v4303: "round_double (4303 / 1000) = Fin (4844747299143811 / 1125899906842624)"
  using round_double_cert[of "2" "4303 / 1000" "- 50" "4844747299143811"] by simp

lemma lit_p1201: "round_double (1201 / 100) = Fin (6761028940589957 / 562949953421312)"
  using round_double_cert[of "3" "1201 / 100" "- 49" "6761028940589957"] by simp

lemma lit_v1745: "round_double (1745 / 1000) = Fin (1964695337440379 / 1125899906842624)"
  using round_double_cert[of "0" "1745 / 1000" "- 52" "7858781349761516"] by simp

lemma cx_a_d: "round_double (- (360006495212929 / 140737488355328)) = Fin (- (360006495212929 / 140737488355328))"
  using round_double_cert[of "1" "- (360006495212929 / 140737488355328)" "- 51" "- 5760103923406864"] by simp

lemma cx_a_n: "round_double (5685794529555251 / 1125899906842624) = Fin (5685794529555251 / 1125899906842624)"
  using round_double_cert[of "2" "5685794529555251 / 1125899906842624" "- 50" "5685794529555251"] by simp

lemma cx_a_a: "round_double (- (5685794529555251 / 2880051961703432)) = Fin (- (8891000046216187 / 4503599627370496))"
  using round_double_cert[of "0" "- (5685794529555251 / 2880051961703432)" "- 52" "- 8891000046216187"] by simp

lemma cx_a_x: "round_double (- (43074648460593370745975309068657 / 5070602400912917605986812821504)) = Fin (- (1195561662464633 / 140737488355328))"
  using round_double_cert[of "3" "- (43074648460593370745975309068657 / 5070602400912917605986812821504)" "- 49" "- 4782246649858532"] by simp

lemma cx_a_b: "round_double (17400756651341727 / 1125899906842624) = Fin (543773645354429 / 35184372088832)"
  using round_double_cert[of "3" "17400756651341727 / 1125899906842624" "- 49" "8700378325670864"] by simp

lemma cx_a_r: "round_double (979532918953083 / 140737488355328) = Fin (979532918953083 / 140737488355328)"
  using round_double_cert[of "2" "979532918953083 / 140737488355328" "- 50" "7836263351624664"] by simp

lemma cx_b_y: "round_double (- (17468106335983136802172657214873 / 5070602400912917605986812821504)) = Fin (- (969674692540453 / 281474976710656))"
  using round_double_cert[of "1" "- (17468106335983136802172657214873 / 5070602400912917605986812821504)" "- 51" "- 7757397540323624"] by simp

lemma cx_b_r: "round_double (3380514470294979 / 281474976710656) = Fin (3380514470294979 / 281474976710656)"
  using round_double_cert[of "3" "3380514470294979 / 281474976710656" "- 49" "6761028940589958"] by simp

lemma cg_d: "round_double (1 / 1125899906842624) = Fin (1 / 1125899906842624)"
  using round_double_cert[of "- 50" "1 / 1125899906842624" "- 102" "4503599627370496"] by simp

lemmas cx_certs = cx_a_d cx_a_n cx_a_a cx_a_x cx_a_b cx_a_r cx_b_y cx_b_r

lemma two_point_inexact_1:
  "ph_two_point (round_double (4303 / 1000)) (round_double (696 / 100)) (round_double (4303 / 1000))
     (round_double (1201 / 100)) (round_double (1745 / 1000)) = Inr (Fin (979532918953083 / 140737488355328))"
  unfolding ph_two_point_def eps_val lit_p696 lit_v4303 lit_p1201 lit_v1745
  by (simp add: f_sub_def bnd_def cx_certs)

lemma two_point_inexact_2:
  "ph_two_point (round_double (1745 / 1000)) (round_double (696 / 100)) (round_double (4303 / 1000))
     (round_double (1201 / 100)) (round_double (1745 / 1000)) = Inr (Fin (3380514470294979 / 281474976710656))"
  unfolding ph_two_point_def eps_val lit_p696 lit_v4303 lit_p1201 lit_v1745
  by (simp add: f_sub_def bnd_def cx_certs)

lemma two_point_tiny_gap:
  "ph_two_point (Fin 0) (Fin 7) (Fin 0) (Fin 4) (Fin (1 / 2 ^ 50)) = Inr NaN"
  unfolding ph_two_point_def eps_val
  by (simp add: f_sub_def cg_d)

lemma two_point_unfold:
  assumes "\<not> f_lt (f_abs (f_sub V2 V1)) (round_double (1 / 10 ^ 12))"
  shows "\<exists>a. f_div (f_sub pH2 pH1) (f_sub V2 V1) = Inr a
     \<and> (\<forall>v. ph_two_point v pH1 V1 pH2 V2 = Inr (f_add (f_mul a v) (f_sub pH1 (f_mul a V1))))"
proof -
  from assms have "f_sub V2 V1 \<noteq> Fin 0" using ph_two_point_guard_zero by blast
  from f_div_total[OF this] obtain a where a: "f_div (f_sub pH2 pH1) (f_sub V2 V1) = Inr a" ..
  then have "\<forall>v. ph_two_point v pH1 V1 pH2 V2 = Inr (f_add (f_mul a v) (f_sub pH1 (f_mul a V1)))"
    using assms by (simp add: ph_two_point_def bnd_def Let_def)
  with a show ?thesis by blast
qed

lemma two_point_error_at_V1:
  assumes "f_add (f_mul a V1) (f_sub pH1 (f_mul a V1)) = Fin r"
  shows "\<exists>p b. pH1 = Fin p \<and> f_sub pH1 (f_mul a V1) = Fin b
           \<and> \<bar>r - p\<bar> \<le> 2 powi (- 53) * (\<bar>b\<bar> + \<bar>r\<bar>) + 2 powi (- 1074)"
proof -
  from f_add_Fin[OF assms] obtain x1 b where
    x1: "f_mul a V1 = Fin x1" and b: "f_sub pH1 (f_mul a V1) = Fin b"
    and r: "round_double (x1 + b) = Fin r" by blast
  from f_sub_Fin[OF b] x1 obtain p where p: "pH1 = Fin p" and rb: "round_double (p - x1) = Fin b"
    by auto
  define u :: real where "u = 2 powi (- 53)"
  define h :: real where "h = 2 powi (- 1075)"
  note err = round_double_err_sum[folded u_def h_def]
  from err[OF r] have e2: "\<bar>r - (x1 + b)\<bar> \<le> u * \<bar>r\<bar> + h" .
  from err[OF rb] have e1: "\<bar>b - (p - x1)\<bar> \<le> u * \<bar>b\<bar> + h" .
  have h2: "(2::real) powi (- 1074) = h + h"
  proof -
    have "(2::real) powi (1 + - 1075) = 2 powi 1 * 2 powi (- 1075)" by (rule power_int_add) simp
    then show ?thesis unfolding h_def by simp
  qed
  have ds: "u * (\<bar>b\<bar> + \<bar>r\<bar>) = u * \<bar>b\<bar> + u * \<bar>r\<bar>" by (simp add: algebra_simps)
  have "\<bar>r - p\<bar> \<le> \<bar>r - (x1 + b)\<bar> + \<bar>b - (p - x1)\<bar>" by linarith
  also have "\<dots> \<le> u * (\<bar>b\<bar> + \<bar>r\<bar>) + 2 powi (- 1074)"
    unfolding h2 ds using e1 e2 by linarith
  finally have "\<bar>r - p\<bar> \<le> 2 powi (- 53) * (\<bar>b\<bar> + \<bar>r\<bar>) + 2 powi (- 1074)"
    unfolding u_def .
  then show ?thesis using p b by blast
qed

lemma two_point_error_at_V2:
  assumes div: "f_div (f_sub pH2 pH1) (f_sub V2 V1) = Inr a"
    and res: "f_add (f_mul a V2) (f_sub pH1 (f_mul a V1)) = Fin r"
    and d: "f_sub V2 V1 = Fin d"
  shows "\<exists>p \<alpha> n x1 x2 b. pH2 = Fin p \<and> a = Fin \<alpha> \<and> f_sub pH2 pH1 = Fin n
           \<and> f_mul a V1 = Fin x1 \<and> f_mul a V2 = Fin x2 \<and> f_sub pH1 (f_mul a V1) = Fin b
           \<and> \<bar>r - p\<bar> \<le> 2 powi (- 53) * (2 * \<bar>\<alpha> * d\<bar> + \<bar>n\<bar> + \<bar>x1\<bar> + \<bar>x2\<bar> + \<bar>b\<bar> + \<bar>r\<bar>)
                        + 2 powi (- 1075) * (\<bar>d\<bar> + \<bar>\<alpha>\<bar> + 5)"
proof -
  define u :: real where "u = 2 powi (- 53)"
  define h :: real where "h = 2 powi (- 1075)"
  have u0: "0 \<le> u" and h0: "0 \<le> h" by (simp_all add: u_def h_def)
  note err = round_double_err_sum[folded u_def h_def]
  from f_add_Fin[OF res] obtain x2 b where
    x2: "f_mul a V2 = Fin x2" and b: "f_sub pH1 (f_mul a V1) = Fin b"
    and rr: "round_double (x2 + b) = Fin r" by blast
  from f_mul_Fin[OF x2] obtain \<alpha> v2 where a: "a = Fin \<alpha>" and V2: "V2 = Fin v2"
    and rx2: "round_double (\<alpha> * v2) = Fin x2" by blast
  from f_sub_Fin[OF b] obtain p1 x1 where p1: "pH1 = Fin p1" and x1: "f_mul a V1 = Fin x1"
    and rb: "round_double (p1 - x1) = Fin b" by blast
  from f_mul_Fin[OF x1] a obtain v1 where V1: "V1 = Fin v1"
    and rx1: "round_double (\<alpha> * v1) = Fin x1" by auto
  from f_sub_Fin[OF d] V1 V2 have rd: "round_double (v2 - v1) = Fin d" by auto
  from div[unfolded d a] f_div_Fin obtain n where d0: "d \<noteq> 0" and n: "f_sub pH2 pH1 = Fin n"
    and ra: "round_double (n / d) = Fin \<alpha>" by blast
  from f_sub_Fin[OF n] p1 obtain p2 where p2: "pH2 = Fin p2"
    and rn: "round_double (p2 - p1) = Fin n" by auto
  define t1 where "t1 = r - (x2 + b)"
  define t2 where "t2 = x2 - \<alpha> * v2"
  define t3 where "t3 = b - (p1 - x1)"
  define t4 where "t4 = x1 - \<alpha> * v1"
  define t5 where "t5 = \<alpha> * d - n"
  define t6 where "t6 = \<alpha> * (d - (v2 - v1))"
  define t7 where "t7 = n - (p2 - p1)"
  have id: "r - p2 = t1 + t2 + t3 - t4 + t5 - t6 + t7"
    unfolding t1_def t2_def t3_def t4_def t5_def t6_def t7_def by (simp add: algebra_simps)
  have b1: "\<bar>t1\<bar> \<le> u * \<bar>r\<bar> + h" unfolding t1_def by (rule err[OF rr])
  have b2: "\<bar>t2\<bar> \<le> u * \<bar>x2\<bar> + h" unfolding t2_def by (rule err[OF rx2])
  have b3: "\<bar>t3\<bar> \<le> u * \<bar>b\<bar> + h" unfolding t3_def by (rule err[OF rb])
  have b4: "\<bar>t4\<bar> \<le> u * \<bar>x1\<bar> + h" unfolding t4_def by (rule err[OF rx1])
  have b7: "\<bar>t7\<bar> \<le> u * \<bar>n\<bar> + h" unfolding t7_def by (rule err[OF rn])
  have b5: "\<bar>t5\<bar> \<le> u * \<bar>\<alpha> * d\<bar> + h * \<bar>d\<bar>"
  proof -
    have "t5 = (\<alpha> - n / d) * d" unfolding t5_def using d0 by (simp add: field_simps)
    then have "\<bar>t5\<bar> = \<bar>\<alpha> - n / d\<bar> * \<bar>d\<bar>" by (simp add: abs_mult)
    also have "\<dots> \<le> (u * \<bar>\<alpha>\<bar> + h) * \<bar>d\<bar>"
      using err[OF ra] by (intro mult_right_mono) auto
    also have "\<dots> = u * \<bar>\<alpha> * d\<bar> + h * \<bar>d\<bar>" by (simp add: algebra_simps abs_mult)
    finally show ?thesis .
  qed
  have b6: "\<bar>t6\<bar> \<le> u * \<bar>\<alpha> * d\<bar> + h * \<bar>\<alpha>\<bar>"
  proof -
    have "\<bar>t6\<bar> = \<bar>\<alpha>\<bar> * \<bar>d - (v2 - v1)\<bar>" unfolding t6_def by (simp add: abs_mult)
    also have "\<dots> \<le> \<bar>\<alpha>\<bar> * (u * \<bar>d\<bar> + h)"
      using err[OF rd] by (intro mult_left_mono) auto
    also have "\<dots> = u * \<bar>\<alpha> * d\<bar> + h * \<bar>\<alpha>\<bar>" by (simp add: algebra_simps abs_mult)
    finally show ?thesis .
  qed
  have "\<bar>r - p2\<bar> \<le> \<bar>t1\<bar> + \<bar>t2\<bar> + \<bar>t3\<bar> + \<bar>t4\<bar> + \<bar>t5\<bar> + \<bar>t6\<bar> + \<bar>t7\<bar>"
    unfolding id by linarith
  also have "\<dots> \<le> u * (2 * \<bar>\<alpha> * d\<bar> + \<bar>n\<bar> + \<bar>x1\<bar> + \<bar>x2\<bar> + \<bar>b\<bar> + \<bar>r\<bar>) + h * (\<bar>d\<bar> + \<bar>\<alpha>\<bar> + 5)"
    using b1 b2 b3 b4 b5 b6 b7 by (simp add: algebra_simps)
  finally have "\<bar>r - p2\<bar> \<le> 2 powi (- 53) * (2 * \<bar>\<alpha> * d\<bar> + \<bar>n\<bar> + \<bar>x1\<bar> + \<bar>x2\<bar> + \<bar>b\<bar> + \<bar>r\<bar>)
                        + 2 powi (- 1075) * (\<bar>d\<bar> + \<bar>\<alpha>\<bar> + 5)"
    unfolding u_def h_def .
  with p2 a n x1 x2 b show ?thesis by blast
qed


text \<open>
  C1, as stated, fails twice.  Two distinct voltages closer than the guard's threshold
  give not-a-number, not a line through the calibration points; and with the guard
  passed, rounding can move the result off the reference value: for pH 6.96 at 4.303 V
  and pH 12.01 at 1.745 V the function returns 6.960000000000001 at 4.303 V and
  12.010000000000002 at 1.745 V.
\<close>

theorem two_point_exact_counterexample:
  "Fin 0 \<noteq> Fin (1 / 2 ^ 50)
   \<and> ph_two_point (Fin 0) (Fin 7) (Fin 0) (Fin 4) (Fin (1 / 2 ^ 50)) \<noteq> Inr (Fin 7)
   \<and> round_double (4303 / 1000) \<noteq> round_double (1745 / 1000)
   \<and> ph_two_point (round_double (4303 / 1000)) (round_double (696 / 100))
         (round_double (4303 / 1000)) (round_double (1201 / 100)) (round_double (1745 / 1000))
       \<noteq> Inr (round_double (696 / 100))
   \<and> ph_two_point (round_double (1745 / 1000)) (round_double (696 / 100))
         (round_double (4303 / 1000)) (round_double (1201 / 100)) (round_double (1745 / 1000))
       \<noteq> Inr (round_double (1201 / 100))"
  unfolding two_point_tiny_gap two_point_inexact_1 two_point_inexact_2
  unfolding lit_p696 lit_v4303 lit_p1201 lit_v1745
  by simp

text \<open>
  C1, amended.  When the guard \<open>abs(V2 - V1) < 1e-12\<close> is false, the function returns
  \<open>a * v + b\<close> evaluated in double arithmetic, with \<open>a = (pH2 - pH1) / (V2 - V1)\<close> and
  \<open>b = pH1 - a * V1\<close> computed once, in double arithmetic, whatever \<open>v\<close> is.  Where the
  result at \<open>V1\<close> is finite it is within \<open>2^-53 (|b| + |r|) + 2^-1074\<close> of \<open>pH1\<close>; where
  the result at \<open>V2\<close> and the difference \<open>V2 - V1\<close> are finite, it is within \<open>2^-53\<close> times
  the magnitudes of the intermediate results, plus an underflow term, of \<open>pH2\<close>.
\<close>

theorem two_point_rounded_affine:
  assumes "\<not> f_lt (f_abs (f_sub V2 V1)) (round_double (1 / 10 ^ 12))"
  shows "\<exists>a. f_div (f_sub pH2 pH1) (f_sub V2 V1) = Inr a
     \<and> (\<forall>v. ph_two_point v pH1 V1 pH2 V2 = Inr (f_add (f_mul a v) (f_sub pH1 (f_mul a V1))))
     \<and> (\<forall>r. ph_two_point V1 pH1 V1 pH2 V2 = Inr (Fin r) \<longrightarrow>
           (\<exists>p b. pH1 = Fin p \<and> f_sub pH1 (f_mul a V1) = Fin b
              \<and> \<bar>r - p\<bar> \<le> 2 powi (- 53) * (\<bar>b\<bar> + \<bar>r\<bar>) + 2 powi (- 1074)))
     \<and> (\<forall>r d. ph_two_point V2 pH1 V1 pH2 V2 = Inr (Fin r) \<longrightarrow> f_sub V2 V1 = Fin d \<longrightarrow>
           (\<exists>p \<alpha> n x1 x2 b. pH2 = Fin p \<and> a = Fin \<alpha> \<and> f_sub pH2 pH1 = Fin n
              \<and> f_mul a V1 = Fin x1 \<and> f_mul a V2 = Fin x2 \<and> f_sub pH1 (f_mul a V1) = Fin b
              \<and> \<bar>r - p\<bar> \<le> 2 powi (- 53) * (2 * \<bar>\<alpha> * d\<bar> + \<bar>n\<bar> + \<bar>x1\<bar> + \<bar>x2\<bar> + \<bar>b\<bar> + \<bar>r\<bar>)
                           + 2 powi (- 1075) * (\<bar>d\<bar> + \<bar>\<alpha>\<bar> + 5)))"
proof -
  from two_point_unfold[OF assms, of pH2 pH1] obtain a where
    a: "f_div (f_sub pH2 pH1) (f_sub V2 V1) = Inr a"
    and v: "\<And>v. ph_two_point v pH1 V1 pH2 V2 = Inr (f_add (f_mul a v) (f_sub pH1 (f_mul a V1)))"
    by blast
  have 1: "\<exists>p b. pH1 = Fin p \<and> f_sub pH1 (f_mul a V1) = Fin b
              \<and> \<bar>r - p\<bar> \<le> 2 powi (- 53) * (\<bar>b\<bar> + \<bar>r\<bar>) + 2 powi (- 1074)"
    if "ph_two_point V1 pH1 V1 pH2 V2 = Inr (Fin r)" for r
    using that two_point_error_at_V1[of a V1 pH1 r] by (simp add: v)
  have 2: "\<exists>p \<alpha> n x1 x2 b. pH2 = Fin p \<and> a = Fin \<alpha> \<and> f_sub pH2 pH1 = Fin n
              \<and> f_mul a V1 = Fin x1 \<and> f_mul a V2 = Fin x2 \<and> f_sub pH1 (f_mul a V1) = Fin b
              \<and> \<bar>r - p\<bar> \<le> 2 powi (- 53) * (2 * \<bar>\<alpha> * d\<bar> + \<bar>n\<bar> + \<bar>x1\<bar> + \<bar>x2\<bar> + \<bar>b\<bar> + \<bar>r\<bar>)
                           + 2 powi (- 1075) * (\<bar>d\<bar> + \<bar>\<alpha>\<bar> + 5)"
    if "ph_two_point V2 pH1 V1 pH2 V2 = Inr (Fin r)" "f_sub V2 V1 = Fin d" for r d
  proof -
    from that(1) have "f_add (f_mul a V2) (f_sub pH1 (f_mul a V1)) = Fin r" by (simp add: v)
    from two_point_error_at_V2[OF a this that(2)] show ?thesis .
  qed
  from a v 1 2 show ?thesis by blast
qed

theorem two_point_rounded_affine_witness:
  "\<not> f_lt (f_abs (f_sub (round_double (1745 / 1000)) (round_double (4303 / 1000))))
          (round_double (1 / 10 ^ 12))
   \<and> (\<exists>a. f_div (f_sub (round_double (1201 / 100)) (round_double (696 / 100)))
              (f_sub (round_double (1745 / 1000)) (round_double (4303 / 1000))) = Inr a
      \<and> ph_two_point (round_double (4303 / 1000)) (round_double (696 / 100))
           (round_double (4303 / 1000)) (round_double (1201 / 100)) (round_double (1745 / 1000))
         = Inr (f_add (f_mul a (round_double (4303 / 1000)))
                  (f_sub (round_double (696 / 100)) (f_mul a (round_double (4303 / 1000)))))
      \<and> ph_two_point (round_double (1745 / 1000)) (round_double (696 / 100))
           (round_double (4303 / 1000)) (round_double (1201 / 100)) (round_double (1745 / 1000))
         = Inr (f_add (f_mul a (round_double (1745 / 1000)))
                  (f_sub (round_double (696 / 100)) (f_mul a (round_double (4303 / 1000)))))
      \<and> ph_two_point (round_double (4303 / 1000)) (round_double (696 / 100))
           (round_double (4303 / 1000)) (round_double (1201 / 100)) (round_double (1745 / 1000))
         = Inr (Fin (979532918953083 / 140737488355328))
      \<and> (\<exists>p b. round_double (696 / 100) = Fin p
            \<and> f_sub (round_double (696 / 100)) (f_mul a (round_double (4303 / 1000))) = Fin b
            \<and> \<bar>979532918953083 / 140737488355328 - p\<bar>
                \<le> 2 powi (- 53) * (\<bar>b\<bar> + \<bar>979532918953083 / 140737488355328\<bar>) + 2 powi (- 1074))
      \<and> ph_two_point (round_double (1745 / 1000)) (round_double (696 / 100))
           (round_double (4303 / 1000)) (round_double (1201 / 100)) (round_double (1745 / 1000))
         = Inr (Fin (3380514470294979 / 281474976710656))
      \<and> f_sub (round_double (1745 / 1000)) (round_double (4303 / 1000))
         = Fin (- (360006495212929 / 140737488355328))
      \<and> (\<exists>p \<alpha> n x1 x2 b. round_double (1201 / 100) = Fin p \<and> a = Fin \<alpha>
            \<and> f_sub (round_double (1201 / 100)) (round_double (696 / 100)) = Fin n
            \<and> f_mul a (round_double (4303 / 1000)) = Fin x1
            \<and> f_mul a (round_double (1745 / 1000)) = Fin x2
            \<and> f_sub (round_double (696 / 100)) (f_mul a (round_double (4303 / 1000))) = Fin b
            \<and> \<bar>3380514470294979 / 281474976710656 - p\<bar>
                \<le> 2 powi (- 53) * (2 * \<bar>\<alpha> * (- (360006495212929 / 140737488355328))\<bar>
                                     + \<bar>n\<bar> + \<bar>x1\<bar> + \<bar>x2\<bar> + \<bar>b\<bar>
                                     + \<bar>3380514470294979 / 281474976710656\<bar>)
                  + 2 powi (- 1075) * (\<bar>- (360006495212929 / 140737488355328)\<bar> + \<bar>\<alpha>\<bar> + 5)))"
proof -
  define p1 where "p1 = round_double (696 / 100)"
  define v1 where "v1 = round_double (4303 / 1000)"
  define p2 where "p2 = round_double (1201 / 100)"
  define v2 where "v2 = round_double (1745 / 1000)"
  define r1 :: real where "r1 = 979532918953083 / 140737488355328"
  define r2 :: real where "r2 = 3380514470294979 / 281474976710656"
  define dd :: real where "dd = - (360006495212929 / 140737488355328)"
  have d: "f_sub v2 v1 = Fin dd"
    unfolding v1_def v2_def dd_def lit_v1745 lit_v4303 by (simp add: f_sub_def cx_a_d)
  have g: "\<not> f_lt (f_abs (f_sub v2 v1)) (round_double (1 / 10 ^ 12))"
    unfolding d eps_val dd_def by simp
  have e1: "ph_two_point v1 p1 v1 p2 v2 = Inr (Fin r1)"
    unfolding p1_def v1_def p2_def v2_def r1_def by (rule two_point_inexact_1)
  have e2: "ph_two_point v2 p1 v1 p2 v2 = Inr (Fin r2)"
    unfolding p1_def v1_def p2_def v2_def r2_def by (rule two_point_inexact_2)
  from two_point_rounded_affine[OF g, of p2 p1]
  have "\<exists>a. f_div (f_sub p2 p1) (f_sub v2 v1) = Inr a
      \<and> ph_two_point v1 p1 v1 p2 v2 = Inr (f_add (f_mul a v1) (f_sub p1 (f_mul a v1)))
      \<and> ph_two_point v2 p1 v1 p2 v2 = Inr (f_add (f_mul a v2) (f_sub p1 (f_mul a v1)))
      \<and> ph_two_point v1 p1 v1 p2 v2 = Inr (Fin r1)
      \<and> (\<exists>p b. p1 = Fin p \<and> f_sub p1 (f_mul a v1) = Fin b
            \<and> \<bar>r1 - p\<bar> \<le> 2 powi (- 53) * (\<bar>b\<bar> + \<bar>r1\<bar>) + 2 powi (- 1074))
      \<and> ph_two_point v2 p1 v1 p2 v2 = Inr (Fin r2)
      \<and> f_sub v2 v1 = Fin dd
      \<and> (\<exists>p \<alpha> n x1 x2 b. p2 = Fin p \<and> a = Fin \<alpha> \<and> f_sub p2 p1 = Fin n
            \<and> f_mul a v1 = Fin x1 \<and> f_mul a v2 = Fin x2 \<and> f_sub p1 (f_mul a v1) = Fin b
            \<and> \<bar>r2 - p\<bar> \<le> 2 powi (- 53) * (2 * \<bar>\<alpha> * dd\<bar> + \<bar>n\<bar> + \<bar>x1\<bar> + \<bar>x2\<bar> + \<bar>b\<bar> + \<bar>r2\<bar>)
                           + 2 powi (- 1075) * (\<bar>dd\<bar> + \<bar>\<alpha>\<bar> + 5))"
  proof (elim exE conjE)
    fix a
    assume A: "f_div (f_sub p2 p1) (f_sub v2 v1) = Inr a"
    assume B: "\<forall>v. ph_two_point v p1 v1 p2 v2 = Inr (f_add (f_mul a v) (f_sub p1 (f_mul a v1)))"
    assume 1: "\<forall>r. ph_two_point v1 p1 v1 p2 v2 = Inr (Fin r) \<longrightarrow>
           (\<exists>p b. p1 = Fin p \<and> f_sub p1 (f_mul a v1) = Fin b
              \<and> \<bar>r - p\<bar> \<le> 2 powi (- 53) * (\<bar>b\<bar> + \<bar>r\<bar>) + 2 powi (- 1074))"
    assume 2: "\<forall>r d. ph_two_point v2 p1 v1 p2 v2 = Inr (Fin r) \<longrightarrow> f_sub v2 v1 = Fin d \<longrightarrow>
           (\<exists>p \<alpha> n x1 x2 b. p2 = Fin p \<and> a = Fin \<alpha> \<and> f_sub p2 p1 = Fin n
              \<and> f_mul a v1 = Fin x1 \<and> f_mul a v2 = Fin x2 \<and> f_sub p1 (f_mul a v1) = Fin b
              \<and> \<bar>r - p\<bar> \<le> 2 powi (- 53) * (2 * \<bar>\<alpha> * d\<bar> + \<bar>n\<bar> + \<bar>x1\<bar> + \<bar>x2\<bar> + \<bar>b\<bar> + \<bar>r\<bar>)
                           + 2 powi (- 1075) * (\<bar>d\<bar> + \<bar>\<alpha>\<bar> + 5))"
    note w1 = 1[rule_format, of r1, OF e1]
    note w2 = 2[rule_format, of r2 dd, OF e2 d]
    show ?thesis
    proof (rule exI[of _ a], intro conjI)
      show "f_div (f_sub p2 p1) (f_sub v2 v1) = Inr a" by (rule A)
      show "ph_two_point v1 p1 v1 p2 v2 = Inr (f_add (f_mul a v1) (f_sub p1 (f_mul a v1)))"
        by (rule B[rule_format])
      show "ph_two_point v2 p1 v1 p2 v2 = Inr (f_add (f_mul a v2) (f_sub p1 (f_mul a v1)))"
        by (rule B[rule_format])
      show "ph_two_point v1 p1 v1 p2 v2 = Inr (Fin r1)" by (rule e1)
      show "\<exists>p b. p1 = Fin p \<and> f_sub p1 (f_mul a v1) = Fin b
            \<and> \<bar>r1 - p\<bar> \<le> 2 powi (- 53) * (\<bar>b\<bar> + \<bar>r1\<bar>) + 2 powi (- 1074)" by (rule w1)
      show "ph_two_point v2 p1 v1 p2 v2 = Inr (Fin r2)" by (rule e2)
      show "f_sub v2 v1 = Fin dd" by (rule d)
      show "\<exists>p \<alpha> n x1 x2 b. p2 = Fin p \<and> a = Fin \<alpha> \<and> f_sub p2 p1 = Fin n
            \<and> f_mul a v1 = Fin x1 \<and> f_mul a v2 = Fin x2 \<and> f_sub p1 (f_mul a v1) = Fin b
            \<and> \<bar>r2 - p\<bar> \<le> 2 powi (- 53) * (2 * \<bar>\<alpha> * dd\<bar> + \<bar>n\<bar> + \<bar>x1\<bar> + \<bar>x2\<bar> + \<bar>b\<bar> + \<bar>r2\<bar>)
                           + 2 powi (- 1075) * (\<bar>dd\<bar> + \<bar>\<alpha>\<bar> + 5)" by (rule w2)
    qed
  qed
  with g show ?thesis unfolding p1_def p2_def v1_def v2_def r1_def r2_def dd_def by (rule conjI)
qed

section \<open>The Nernst model\<close>

lemma round_double_nonzero:
  assumes "x \<noteq> 0"
  shows "round_double x =
     (if 971 < max (ilog2 \<bar>x\<bar> - 52) (- 1074)
         \<or> (max (ilog2 \<bar>x\<bar> - 52) (- 1074) = 971
            \<and> 2 ^ 53 \<le> \<bar>round_half_even (x / 2 powi (max (ilog2 \<bar>x\<bar> - 52) (- 1074)))\<bar>)
      then (if 0 < x then PInf else NInf)
      else Fin (of_int (round_half_even (x / 2 powi (max (ilog2 \<bar>x\<bar> - 52) (- 1074))))
                  * 2 powi (max (ilog2 \<bar>x\<bar> - 52) (- 1074))))"
  using assms by (simp only: round_double_def Let_def if_False)

lemma round_double_nonpos:
  assumes "x \<le> 0" shows "nonpos (round_double x)"
proof (cases "x = 0")
  case True
  then show ?thesis by (simp add: nonpos_def round_double_def)
next
  case False
  define e where "e = max (ilog2 \<bar>x\<bar> - 52) (- 1074)"
  have p: "(0::real) < 2 powi e" by simp
  have "x / 2 powi e \<le> of_int 0" using assms p by (simp add: divide_nonpos_pos)
  from round_half_even_le[OF this] have m: "round_half_even (x / 2 powi e) \<le> 0" .
  then have "(of_int (round_half_even (x / 2 powi e)) :: real) \<le> 0" by simp
  then have "of_int (round_half_even (x / 2 powi e)) * 2 powi e \<le> (0::real)"
    using p by (simp add: mult_le_0_iff)
  then show ?thesis
    unfolding round_double_nonzero[OF False] e_def[symmetric] nonpos_def
    using assms by auto
qed

lemma ilog2_ge:
  assumes "2 powi k \<le> x"
  shows "k \<le> ilog2 x"
proof (rule ccontr)
  assume "\<not> k \<le> ilog2 x"
  then have "ilog2 x + 1 \<le> k" by simp
  then have "(2::real) powi (ilog2 x + 1) \<le> 2 powi k" by (intro power_int_increasing) auto
  moreover have "0 < x" using assms by (smt (verit) zero_less_power_int)
  ultimately show False using ilog2_bounds[of x] assms by linarith
qed

lemma round_double_atleast:
  assumes "2 powi k \<le> x" "- 1022 \<le> k"
  shows "atleast k (round_double x)"
proof -
  have pos: "0 < x" using assms(1) by (smt (verit) zero_less_power_int)
  define K where "K = ilog2 \<bar>x\<bar>"
  have kK: "k \<le> K" unfolding K_def using assms(1) pos by (intro ilog2_ge) simp
  define e where "e = max (K - 52) (- 1074)"
  have e: "e = K - 52" using kK assms(2) by (simp add: e_def)
  have p: "(0::real) < 2 powi e" by simp
  define m where "m = round_half_even (x / 2 powi e)"
  have kb: "2 powi K \<le> x" using ilog2_bounds[of "\<bar>x\<bar>"] pos by (simp add: K_def)
  have k52: "(2::real) powi K = 2 ^ 52 * 2 powi e"
  proof -
    have "(2::real) powi (52 + e) = 2 powi 52 * 2 powi e" by (rule power_int_add) simp
    moreover have "K = 52 + e" using e by simp
    ultimately have "(2::real) powi K = 2 powi 52 * 2 powi e" by (simp only:)
    then show ?thesis by simp
  qed
  have "2 ^ 52 * 2 powi e \<le> x" using kb k52 by simp
  then have "2 ^ 52 \<le> x / 2 powi e" by (rule iffD2[OF pos_le_divide_eq[OF p]])
  then have "of_int (2 ^ 52) \<le> x / 2 powi e" by simp
  from round_half_even_ge[OF this] have big: "2 ^ 52 \<le> m" by (simp add: m_def)
  then have "(2::real) ^ 52 \<le> of_int m" by (metis of_int_le_iff of_int_numeral of_int_power)
  then have "(2::real) ^ 52 * 2 powi e \<le> of_int m * 2 powi e" using p by (intro mult_right_mono) auto
  then have "(2::real) powi K \<le> of_int m * 2 powi e" using k52 by simp
  moreover have "(2::real) powi k \<le> 2 powi K" using kK by (intro power_int_increasing) auto
  ultimately have y: "(2::real) powi k \<le> of_int m * 2 powi e" by linarith
  have x0: "x \<noteq> 0" using pos by simp
  show ?thesis
    unfolding round_double_nonzero[OF x0] K_def[symmetric] e_def[symmetric] m_def[symmetric] atleast_def
    using pos y by auto
qed

lemma atleast_pos:
  assumes "atleast k f" shows "\<not> f_le f (Fin 0)"
  using assms unfolding atleast_def
proof (elim disjE exE conjE)
  assume "f = PInf"
  then show ?thesis by simp
next
  fix y assume y: "f = Fin y" "2 powi k \<le> y"
  have "(0::real) < 2 powi k" by simp
  with y(2) have "0 < y" by linarith
  with y(1) show ?thesis by simp
qed

lemma nonpos_le: "nonpos f \<Longrightarrow> f_le f (Fin 0)"
  unfolding nonpos_def by auto

lemma f_mul_nonpos:
  assumes "nonpos f" "0 < c" shows "nonpos (f_mul (Fin c) f)"
  using assms unfolding nonpos_def
proof (elim disjE exE conjE)
  assume "f = NInf"
  then show "f_mul (Fin c) f = NInf \<or> (\<exists>y. f_mul (Fin c) f = Fin y \<and> y \<le> 0)"
    using assms(2) by (simp add: inf_of_sign_def)
next
  fix y assume "f = Fin y" "y \<le> 0"
  then have "c * y \<le> 0" using assms(2) by (simp add: mult_le_0_iff)
  from round_double_nonpos[OF this] \<open>f = Fin y\<close>
  show "f_mul (Fin c) f = NInf \<or> (\<exists>y. f_mul (Fin c) f = Fin y \<and> y \<le> 0)"
    by (simp add: nonpos_def)
qed

lemma f_mul_nonpos_right:
  assumes "nonpos f" "0 < c" shows "nonpos (f_mul f (Fin c))"
  using assms unfolding nonpos_def
proof (elim disjE exE conjE)
  assume "f = NInf"
  then show "f_mul f (Fin c) = NInf \<or> (\<exists>y. f_mul f (Fin c) = Fin y \<and> y \<le> 0)"
    using assms(2) by (simp add: inf_of_sign_def)
next
  fix y assume "f = Fin y" "y \<le> 0"
  then have "y * c \<le> 0" using assms(2) by (simp add: mult_le_0_iff)
  from round_double_nonpos[OF this] \<open>f = Fin y\<close>
  show "f_mul f (Fin c) = NInf \<or> (\<exists>y. f_mul f (Fin c) = Fin y \<and> y \<le> 0)"
    by (simp add: nonpos_def)
qed

lemma f_div_nonpos:
  assumes "nonpos f" "0 < c" shows "\<exists>q. f_div f (Fin c) = Inr q \<and> nonpos q"
  using assms unfolding nonpos_def
proof (elim disjE exE conjE)
  assume "f = NInf"
  then show "\<exists>q. f_div f (Fin c) = Inr q \<and> (q = NInf \<or> (\<exists>y. q = Fin y \<and> y \<le> 0))"
    using assms(2) by (simp add: inf_of_sign_def)
next
  fix y assume "f = Fin y" "y \<le> 0"
  then have "y / c \<le> 0" using assms(2) by (simp add: divide_nonpos_pos)
  from round_double_nonpos[OF this] \<open>f = Fin y\<close> assms(2)
  show "\<exists>q. f_div f (Fin c) = Inr q \<and> (q = NInf \<or> (\<exists>y. q = Fin y \<and> y \<le> 0))"
    by (simp add: nonpos_def)
qed

lemma f_mul_atleast:
  assumes "atleast k f" "2 powi j \<le> c" "- 1022 \<le> j + k" shows "atleast (j + k) (f_mul (Fin c) f)"
proof -
  have c0: "0 < c" using assms(2) by (smt (verit) zero_less_power_int)
  from assms(1) show ?thesis unfolding atleast_def
  proof (elim disjE exE conjE)
    assume "f = PInf"
    then show "f_mul (Fin c) f = PInf \<or> (\<exists>y. f_mul (Fin c) f = Fin y \<and> 2 powi (j + k) \<le> y)"
      using c0 by (simp add: inf_of_sign_def)
  next
    fix y assume y: "f = Fin y" "2 powi k \<le> y"
    have "(2::real) powi (j + k) = 2 powi j * 2 powi k" by (rule power_int_add) simp
    also have "\<dots> \<le> c * y" using assms(2) y(2) c0 by (intro mult_mono) auto
    finally have "2 powi (j + k) \<le> c * y" .
    from round_double_atleast[OF this assms(3)] y(1)
    show "f_mul (Fin c) f = PInf \<or> (\<exists>y. f_mul (Fin c) f = Fin y \<and> 2 powi (j + k) \<le> y)"
      by (simp add: atleast_def)
  qed
qed

lemma f_mul_atleast_right:
  assumes "atleast k f" "2 powi j \<le> c" "- 1022 \<le> j + k" shows "atleast (j + k) (f_mul f (Fin c))"
proof -
  have c0: "0 < c" using assms(2) by (smt (verit) zero_less_power_int)
  from assms(1) show ?thesis unfolding atleast_def
  proof (elim disjE exE conjE)
    assume "f = PInf"
    then show "f_mul f (Fin c) = PInf \<or> (\<exists>y. f_mul f (Fin c) = Fin y \<and> 2 powi (j + k) \<le> y)"
      using c0 by (simp add: inf_of_sign_def)
  next
    fix y assume y: "f = Fin y" "2 powi k \<le> y"
    have "(2::real) powi (j + k) = 2 powi j * 2 powi k" by (rule power_int_add) simp
    also have "\<dots> \<le> c * y" using assms(2) y(2) c0 by (intro mult_mono) auto
    finally have "2 powi (j + k) \<le> y * c" by (simp add: mult.commute)
    from round_double_atleast[OF this assms(3)] y(1)
    show "f_mul f (Fin c) = PInf \<or> (\<exists>y. f_mul f (Fin c) = Fin y \<and> 2 powi (j + k) \<le> y)"
      by (simp add: atleast_def)
  qed
qed

lemma f_div_atleast:
  assumes "atleast k f" "0 < c" "c \<le> 2 powi j" "- 1022 \<le> k - j"
  shows "\<exists>q. f_div f (Fin c) = Inr q \<and> atleast (k - j) q"
  using assms(1) unfolding atleast_def
proof (elim disjE exE conjE)
  assume "f = PInf"
  then show "\<exists>q. f_div f (Fin c) = Inr q \<and> (q = PInf \<or> (\<exists>y. q = Fin y \<and> 2 powi (k - j) \<le> y))"
    using assms(2) by (simp add: inf_of_sign_def)
next
  fix y assume y: "f = Fin y" "2 powi k \<le> y"
  have "(0::real) < 2 powi k" by simp
  with y(2) have y0: "0 \<le> y" by linarith
  have "(2::real) powi (k - j) = 2 powi k / 2 powi j" by (rule power_int_diff) simp
  also have "\<dots> \<le> y / c" using assms(2,3) y(2) y0 by (intro frac_le) auto
  finally have "2 powi (k - j) \<le> y / c" .
  from round_double_atleast[OF this assms(4)] y(1) assms(2)
  show "\<exists>q. f_div f (Fin c) = Inr q \<and> (q = PInf \<or> (\<exists>y. q = Fin y \<and> 2 powi (k - j) \<le> y))"
    by (simp add: atleast_def)
qed

lemma double_grid:
  assumes "is_double x" "2 powi k \<le> \<bar>x\<bar>" "- 1022 \<le> k"
  shows "\<exists>z :: int. x = of_int z * 2 powi (k - 52)"
proof -
  have "(0::real) < 2 powi k" by simp
  with assms(2) have "0 < \<bar>x\<bar>" by linarith
  then have x0: "x \<noteq> 0" by simp
  define K where "K = ilog2 \<bar>x\<bar>"
  have kK: "k \<le> K" unfolding K_def using assms(2) by (rule ilog2_ge)
  define e where "e = max (K - 52) (- 1074)"
  have e: "e = K - 52" using kK assms(3) by (simp add: e_def)
  define m where "m = round_half_even (x / 2 powi e)"
  from assms(1) have "round_double x = Fin x" by (simp add: is_double_def)
  from round_double_Fin_shape[OF this x0] have x: "x = of_int m * 2 powi e"
    by (simp add: m_def e_def K_def)
  have "(2::real) powi ((K - k) + (k - 52)) = 2 powi (K - k) * 2 powi (k - 52)"
    by (rule power_int_add) simp
  moreover have "e = (K - k) + (k - 52)" using e by simp
  ultimately have "(2::real) powi e = 2 powi (K - k) * 2 powi (k - 52)" by (simp only:)
  also have "(2::real) powi (K - k) = 2 ^ nat (K - k)" using kK by (simp add: power_int_def)
  finally have "x = of_int (m * 2 ^ nat (K - k)) * 2 powi (k - 52)" using x by simp
  then show ?thesis by blast
qed

lemma kelvin_gap:
  assumes "is_double tc" "0 < tc + 2402652809016115 / 8796093022208"
  shows "2 powi (- 44) \<le> tc + 2402652809016115 / 8796093022208"
proof (cases "\<bar>tc\<bar> < 256")
  case True
  then have "- 256 < tc" by linarith
  then have "17 \<le> tc + 2402652809016115 / 8796093022208" by simp
  moreover have "(2::real) powi (- 44) \<le> 17" by simp
  ultimately show ?thesis by linarith
next
  case False
  then have "2 powi 8 \<le> \<bar>tc\<bar>" by simp
  from double_grid[OF assms(1) this] obtain z :: int where z: "tc = of_int z * 2 powi (- 44)"
    by auto
  have p: "(2::real) powi (- 44) * 2 ^ 44 = 1" by simp
  have c: "(2402652809016115 / 8796093022208 :: real) = of_int 4805305618032230 * 2 powi (- 44)"
    by simp
  have s: "tc + 2402652809016115 / 8796093022208 = of_int (z + 4805305618032230) * 2 powi (- 44)"
    unfolding c z by (simp only: of_int_add distrib_right)
  have "(0::real) < 2 powi (- 44)" by simp
  with assms(2)[unfolded s] have "(0::real) < of_int (z + 4805305618032230)"
    by (simp only: zero_less_mult_iff) auto
  then have "1 \<le> z + 4805305618032230" by linarith
  then have "(1::real) \<le> of_int (z + 4805305618032230)" by (metis of_int_1 of_int_le_iff)
  then have "1 * (2::real) powi (- 44) \<le> of_int (z + 4805305618032230) * 2 powi (- 44)"
    by (intro mult_right_mono) auto
  then show ?thesis unfolding s by simp
qed

lemma slope_of_nonpos:
  assumes "nonpos T"
  shows "\<exists>S. bnd (f_div (f_mul R_const T) F_const) (\<lambda>q. Inr (f_mul q LN10)) = Inr S \<and> nonpos S"
proof -
  have R: "R_const = Fin (2340313171806303 / 281474976710656)" unfolding R_const_def R_val ..
  have F: "F_const = Fin (3315210767992787 / 34359738368)" unfolding F_const_def F_val ..
  have 1: "nonpos (f_mul R_const T)" unfolding R using assms by (rule f_mul_nonpos) simp
  from f_div_nonpos[OF 1, of "3315210767992787 / 34359738368"]
  obtain q where q: "f_div (f_mul R_const T) F_const = Inr q" "nonpos q" unfolding F by auto
  have "nonpos (f_mul q LN10)" unfolding LN10_val using q(2) by (rule f_mul_nonpos_right) simp
  with q(1) show ?thesis by (simp add: bnd_def)
qed

lemma slope_of_atleast:
  assumes "atleast (- 44) T"
  shows "\<exists>S. bnd (f_div (f_mul R_const T) F_const) (\<lambda>q. Inr (f_mul q LN10)) = Inr S \<and> atleast (- 57) S"
proof -
  have R: "R_const = Fin (2340313171806303 / 281474976710656)" unfolding R_const_def R_val ..
  have F: "F_const = Fin (3315210767992787 / 34359738368)" unfolding F_const_def F_val ..
  have "atleast (3 + - 44) (f_mul R_const T)" unfolding R using assms by (rule f_mul_atleast) simp_all
  then have 1: "atleast (- 41) (f_mul R_const T)" by simp
  from f_div_atleast[OF 1, of "3315210767992787 / 34359738368" 17]
  obtain q where q: "f_div (f_mul R_const T) F_const = Inr q" "atleast (- 58) q" unfolding F by auto
  have "atleast (1 + - 58) (f_mul q LN10)" unfolding LN10_val using q(2)
    by (rule f_mul_atleast_right) simp_all
  then have "atleast (- 57) (f_mul q LN10)" by simp
  with q(1) show ?thesis by (simp add: bnd_def)
qed

lemma slope_sign:
  assumes dbl: "\<forall>tc. temp_c = Fin tc \<longrightarrow> is_double tc"
    and S: "nernst_slope_volt_per_pH temp_c = Inr S"
  shows "f_le S (Fin 0) \<longleftrightarrow> f_le (f_add temp_c (round_double (27315 / 100))) (Fin 0)"
    and "\<forall>tc. temp_c = Fin tc \<longrightarrow> (f_le S (Fin 0) \<longleftrightarrow> tc + 2402652809016115 / 8796093022208 \<le> 0)"
proof -
  define T where "T = f_add temp_c (round_double (27315 / 100))"
  have Sdef: "bnd (f_div (f_mul R_const T) F_const) (\<lambda>q. Inr (f_mul q LN10)) = Inr S"
    using S by (simp add: nernst_slope_volt_per_pH_def T_def Let_def)
  have main: "(f_le S (Fin 0) \<longleftrightarrow> f_le T (Fin 0))
      \<and> (\<forall>tc. temp_c = Fin tc \<longrightarrow> (f_le S (Fin 0) \<longleftrightarrow> tc + 2402652809016115 / 8796093022208 \<le> 0))"
  proof (cases temp_c)
    case (Fin tc)
    then have T: "T = round_double (tc + 2402652809016115 / 8796093022208)"
      unfolding T_def kelvin_val by simp
    show ?thesis
    proof (cases "tc + 2402652809016115 / 8796093022208 \<le> 0")
      case True
      then have n: "nonpos T" unfolding T by (rule round_double_nonpos)
      from slope_of_nonpos[OF n] Sdef have "nonpos S" by auto
      with n True Fin show ?thesis by (simp add: nonpos_le)
    next
      case False
      from dbl Fin have "is_double tc" by simp
      from kelvin_gap[OF this] False have "2 powi (- 44) \<le> tc + 2402652809016115 / 8796093022208"
        by simp
      then have a: "atleast (- 44) T" unfolding T by (rule round_double_atleast) simp
      from slope_of_atleast[OF a] Sdef have "atleast (- 57) S" by auto
      with a False Fin show ?thesis by (simp add: atleast_pos)
    qed
  next
    case PInf
    then have a: "atleast (- 44) T" unfolding T_def kelvin_val by (simp add: atleast_def)
    from slope_of_atleast[OF a] Sdef have "atleast (- 57) S" by auto
    with a PInf show ?thesis by (simp add: atleast_pos)
  next
    case NInf
    then have n: "nonpos T" unfolding T_def kelvin_val by (simp add: nonpos_def)
    from slope_of_nonpos[OF n] Sdef have "nonpos S" by auto
    with n NInf show ?thesis by (simp add: nonpos_le)
  next
    case NaN
    then have "T = NaN" by (simp add: T_def)
    with Sdef have "S = NaN"
      unfolding R_const_def R_val F_const_def F_val LN10_val by (simp add: bnd_def)
    with \<open>T = NaN\<close> NaN show ?thesis by simp
  qed
  from main show "f_le S (Fin 0) \<longleftrightarrow> f_le (f_add temp_c (round_double (27315 / 100))) (Fin 0)"
    unfolding T_def by blast
  from main show "\<forall>tc. temp_c = Fin tc \<longrightarrow> (f_le S (Fin 0) \<longleftrightarrow> tc + 2402652809016115 / 8796093022208 \<le> 0)"
    by blast
qed

lemma rd_25: "round_double (25) = Fin (25)"
  using round_double_cert[of "4" "25" "- 48" "7036874417766400"] by simp

lemma rd_mkelvin: "round_double (- (2402652809016115 / 8796093022208)) = Fin (- (2402652809016115 / 8796093022208))"
  using round_double_cert[of "8" "- (2402652809016115 / 8796093022208)" "- 44" "- 4805305618032230"] by simp

lemma ph_nernst_unfold:
  assumes "nernst_slope_volt_per_pH temp_c = Inr S"
  shows "f_le S (Fin 0) \<longrightarrow> ph_nernst v E0 temp_c sign = Inr NaN"
    and "\<not> f_le S (Fin 0) \<longrightarrow> (\<forall>s. int_to_float sign = Inr s \<longrightarrow>
           (\<exists>q. f_div (f_mul s (f_sub v E0)) S = Inr q
              \<and> ph_nernst v E0 temp_c sign = Inr (f_add (Fin 7) q)))"
proof -
  show "f_le S (Fin 0) \<longrightarrow> ph_nernst v E0 temp_c sign = Inr NaN"
    using assms by (simp add: ph_nernst_def bnd_def)
  show "\<not> f_le S (Fin 0) \<longrightarrow> (\<forall>s. int_to_float sign = Inr s \<longrightarrow>
           (\<exists>q. f_div (f_mul s (f_sub v E0)) S = Inr q
              \<and> ph_nernst v E0 temp_c sign = Inr (f_add (Fin 7) q)))"
  proof (intro impI allI)
    fix s assume n: "\<not> f_le S (Fin 0)" and s: "int_to_float sign = Inr s"
    from n have "S \<noteq> Fin 0" by (rule f_le_zero)
    from f_div_total[OF this] obtain q where q: "f_div (f_mul s (f_sub v E0)) S = Inr q" ..
    then have "ph_nernst v E0 temp_c sign = Inr (f_add (Fin 7) q)"
      using assms n s by (simp add: ph_nernst_def bnd_def)
    with q show "\<exists>q. f_div (f_mul s (f_sub v E0)) S = Inr q
              \<and> ph_nernst v E0 temp_c sign = Inr (f_add (Fin 7) q)" by blast
  qed
qed

lemma nernst_slope_absolute_zero:
  "nernst_slope_volt_per_pH (f_neg (round_double (27315 / 100))) = Inr (Fin 0)"
  unfolding nernst_slope_volt_per_pH_def R_const_def F_const_def R_val F_val kelvin_val LN10_val
  by (simp add: bnd_def)

text \<open>
  C5, as stated, fails at absolute zero.  At \<open>temp_c = -273.15\<close> the code computes the
  absolute temperature \<open>0.0\<close>, the slope is \<open>0.0\<close>, the test \<open>S <= 0\<close> holds and the
  function returns not-a-number: the branch is reached with an absolute temperature that
  is zero, not negative.
\<close>

theorem nernst_absolute_zero_counterexample:
  "nernst_slope_volt_per_pH (f_neg (round_double (27315 / 100))) = Inr (Fin 0)
   \<and> f_le (Fin 0) (Fin 0)
   \<and> f_add (f_neg (round_double (27315 / 100))) (round_double (27315 / 100)) = Fin 0
   \<and> \<not> f_lt (Fin 0) (Fin 0)
   \<and> ph_nernst (Fin (5 / 2)) (Fin (5 / 2)) (f_neg (round_double (27315 / 100))) (- 1) = Inr NaN"
proof (intro conjI)
  show "nernst_slope_volt_per_pH (f_neg (round_double (27315 / 100))) = Inr (Fin 0)"
    by (rule nernst_slope_absolute_zero)
  show "f_add (f_neg (round_double (27315 / 100))) (round_double (27315 / 100)) = Fin 0"
    unfolding kelvin_val by simp
  show "ph_nernst (Fin (5 / 2)) (Fin (5 / 2)) (f_neg (round_double (27315 / 100))) (- 1) = Inr NaN"
    unfolding ph_nernst_def nernst_slope_absolute_zero by (simp add: bnd_def)
qed simp_all

text \<open>
  C5, amended.  \<open>ph_nernst\<close> computes the slope \<open>S\<close>; if \<open>S <= 0\<close> it returns
  not-a-number, otherwise it returns \<open>7 + sign * (v - E0) / S\<close> evaluated in double
  arithmetic, without raising for the signs \<open>1\<close> and \<open>-1\<close>.  For a temperature that is a
  double, \<open>S <= 0\<close> holds exactly when the absolute temperature \<open>temp_c + 273.15\<close> is zero
  or negative (273.15 being the double 2402652809016115 / 2^43).
\<close>

theorem nernst_ph_contract:
  "\<exists>S. nernst_slope_volt_per_pH temp_c = Inr S
     \<and> (f_le S (Fin 0) \<longrightarrow> ph_nernst v E0 temp_c sign = Inr NaN)
     \<and> (\<not> f_le S (Fin 0) \<longrightarrow> (\<forall>s. int_to_float sign = Inr s \<longrightarrow>
           (\<exists>q. f_div (f_mul s (f_sub v E0)) S = Inr q
              \<and> ph_nernst v E0 temp_c sign = Inr (f_add (Fin 7) q))))
     \<and> int_to_float (- 1) = Inr (Fin (- 1)) \<and> int_to_float 1 = Inr (Fin 1)
     \<and> round_double (27315 / 100) = Fin (2402652809016115 / 2 ^ 43)
     \<and> ((\<forall>tc. temp_c = Fin tc \<longrightarrow> is_double tc) \<longrightarrow>
           (f_le S (Fin 0) \<longleftrightarrow> f_le (f_add temp_c (round_double (27315 / 100))) (Fin 0))
           \<and> (\<forall>tc. temp_c = Fin tc \<longrightarrow>
                 (f_le S (Fin 0) \<longleftrightarrow> tc + 2402652809016115 / 2 ^ 43 \<le> 0)))"
proof -
  obtain S where S: "nernst_slope_volt_per_pH temp_c = Inr S" using nernst_slope_total by blast
  have k: "round_double (27315 / 100) = Fin (2402652809016115 / 2 ^ 43)"
    unfolding kelvin_val by simp
  have sg: "(\<forall>tc. temp_c = Fin tc \<longrightarrow> is_double tc) \<longrightarrow>
           (f_le S (Fin 0) \<longleftrightarrow> f_le (f_add temp_c (round_double (27315 / 100))) (Fin 0))
           \<and> (\<forall>tc. temp_c = Fin tc \<longrightarrow>
                 (f_le S (Fin 0) \<longleftrightarrow> tc + 2402652809016115 / 2 ^ 43 \<le> 0))"
  proof
    assume d: "\<forall>tc. temp_c = Fin tc \<longrightarrow> is_double tc"
    from slope_sign[OF d S]
    show "(f_le S (Fin 0) \<longleftrightarrow> f_le (f_add temp_c (round_double (27315 / 100))) (Fin 0))
           \<and> (\<forall>tc. temp_c = Fin tc \<longrightarrow>
                 (f_le S (Fin 0) \<longleftrightarrow> tc + 2402652809016115 / 2 ^ 43 \<le> 0))"
      by simp
  qed
  show ?thesis
    by (rule exI[of _ S], intro conjI)
       (rule S, rule ph_nernst_unfold(1)[OF S], rule ph_nernst_unfold(2)[OF S],
        rule int_to_float_sign(1), rule int_to_float_sign(2), rule k, rule sg)
qed

theorem nernst_ph_contract_witness:
  "(\<exists>q. f_div (f_mul (Fin (- 1)) (f_sub (Fin (5 / 2)) (Fin (5 / 2))))
            (Fin (4262880403280107 / 2 ^ 56)) = Inr q
        \<and> ph_nernst (Fin (5 / 2)) (Fin (5 / 2)) (Fin 25) (- 1) = Inr (f_add (Fin 7) q))
   \<and> (f_le (Fin (4262880403280107 / 2 ^ 56)) (Fin 0) \<longleftrightarrow> (25 + 2402652809016115 / 2 ^ 43 \<le> (0::real)))
   \<and> ph_nernst (Fin (5 / 2)) (Fin (5 / 2)) (f_neg (round_double (27315 / 100))) (- 1) = Inr NaN"
proof (intro conjI)
  have dbl: "\<forall>tc. Fin 25 = Fin tc \<longrightarrow> is_double tc" by (simp add: is_double_def rd_25)
  have s25: "nernst_slope_volt_per_pH (Fin 25) = Inr (Fin (4262880403280107 / 2 ^ 56))"
    using nernst_slope_25 by simp
  note T = nernst_ph_contract[of "Fin 25" "Fin (5 / 2)" "Fin (5 / 2)" "- 1", unfolded s25]
  from T show "\<exists>q. f_div (f_mul (Fin (- 1)) (f_sub (Fin (5 / 2)) (Fin (5 / 2))))
            (Fin (4262880403280107 / 2 ^ 56)) = Inr q
        \<and> ph_nernst (Fin (5 / 2)) (Fin (5 / 2)) (Fin 25) (- 1) = Inr (f_add (Fin 7) q)"
  proof (elim exE conjE)
    fix S
    assume e: "Inr (Fin (4262880403280107 / 2 ^ 56)) = Inr S"
      and b: "\<not> f_le S (Fin 0) \<longrightarrow> (\<forall>s. int_to_float (- 1) = Inr s \<longrightarrow>
           (\<exists>q. f_div (f_mul s (f_sub (Fin (5 / 2)) (Fin (5 / 2)))) S = Inr q
              \<and> ph_nernst (Fin (5 / 2)) (Fin (5 / 2)) (Fin 25) (- 1) = Inr (f_add (Fin 7) q)))"
      and i: "int_to_float (- 1) = Inr (Fin (- 1))"
    from e have S: "S = Fin (4262880403280107 / 2 ^ 56)" by simp
    have n: "\<not> f_le S (Fin 0)" unfolding S by simp
    from b[rule_format, OF n i] show ?thesis unfolding S .
  qed
  from T show "f_le (Fin (4262880403280107 / 2 ^ 56)) (Fin 0) \<longleftrightarrow> (25 + 2402652809016115 / 2 ^ 43 \<le> (0::real))"
  proof (elim exE conjE)
    fix S
    assume e: "Inr (Fin (4262880403280107 / 2 ^ 56)) = Inr S"
      and c: "(\<forall>tc. Fin 25 = Fin tc \<longrightarrow> is_double tc) \<longrightarrow>
           (f_le S (Fin 0) \<longleftrightarrow> f_le (f_add (Fin 25) (round_double (27315 / 100))) (Fin 0))
           \<and> (\<forall>tc. Fin 25 = Fin tc \<longrightarrow>
                 (f_le S (Fin 0) \<longleftrightarrow> tc + 2402652809016115 / 2 ^ 43 \<le> 0))"
    from e have S: "S = Fin (4262880403280107 / 2 ^ 56)" by simp
    from c[THEN mp, OF dbl] have "\<forall>tc. Fin 25 = Fin tc \<longrightarrow>
                 (f_le S (Fin 0) \<longleftrightarrow> tc + 2402652809016115 / 2 ^ 43 \<le> 0)" by (rule conjunct2)
    from this[rule_format, OF refl] show ?thesis unfolding S .
  qed
  note Z = nernst_ph_contract[of "f_neg (round_double (27315 / 100))" "Fin (5 / 2)" "Fin (5 / 2)" "- 1",
      unfolded nernst_slope_absolute_zero]
  from Z show "ph_nernst (Fin (5 / 2)) (Fin (5 / 2)) (f_neg (round_double (27315 / 100))) (- 1) = Inr NaN"
  proof (elim exE conjE)
    fix S
    assume e: "Inr (Fin 0) = Inr S"
      and a: "f_le S (Fin 0) \<longrightarrow>
           ph_nernst (Fin (5 / 2)) (Fin (5 / 2)) (f_neg (round_double (27315 / 100))) (- 1) = Inr NaN"
    from e have l: "f_le S (Fin 0)" by auto
    from a[THEN mp, OF l] show ?thesis .
  qed
qed

end
